theory Spec2Isabelle
  imports Main
begin

section \<open>Records: JavaScript objects with string values\<close>

text \<open>
  A \<open>Product\<close> (types.ts) is an object whose properties are all strings. It is modelled
  as the list of its own properties in enumeration order, which is the order
  \<open>JSON.stringify\<close>, \<open>for ... in\<close> and the object spread follow. Assigning a property
  that exists keeps its position; assigning a new one appends it. \<open>obj_get\<close> looks up an
  own property. The properties the program reads (\<open>sku\<close>, \<open>name\<close> and the two generated
  fields) are not inherited from \<open>Object.prototype\<close>, so reading one that the object does not
  own gives \<open>undefined\<close>, modelled by \<open>None\<close>.
\<close>

type_synonym product = "(string \<times> string) list"

definition obj_get :: "string \<Rightarrow> product \<Rightarrow> string option" where
  "obj_get k p = map_of p k"

fun obj_set :: "string \<Rightarrow> string \<Rightarrow> product \<Rightarrow> product" where
  "obj_set k v [] = [(k, v)]"
| "obj_set k v (kv # p) = (if fst kv = k then (k, v) # p else kv # obj_set k v p)"

text \<open>The rest pattern \<open>const { a: _, b: _, ...rest } = p\<close>: the properties other than
  the named ones, in their order.\<close>

definition obj_rest :: "string list \<Rightarrow> product \<Rightarrow> product" where
  "obj_rest ks p = filter (\<lambda>kv. fst kv \<notin> set ks) p"

definition sku :: "product \<Rightarrow> string option" where
  "sku p = obj_get ''sku'' p"

text \<open>\<open>{ ...product, 'Meta Title': t, 'Meta Description': d }\<close>\<close>

definition withMeta :: "string \<Rightarrow> string \<Rightarrow> product \<Rightarrow> product" where
  "withMeta t d p = obj_set ''Meta Description'' d (obj_set ''Meta Title'' t p)"

text \<open>A JavaScript \<open>Map\<close> built from an array of entries: a later entry with the same key
  replaces the earlier one.\<close>

definition js_Map :: "('k \<times> 'v) list \<Rightarrow> ('k \<rightharpoonup> 'v)" where
  "js_Map entries = map_of (rev entries)"

section \<open>Strings\<close>

fun startsWith :: "string \<Rightarrow> string \<Rightarrow> bool" where
  "startsWith s [] = True"
| "startsWith [] (c # cs) = False"
| "startsWith (x # xs) (c # cs) = (x = c \<and> startsWith xs cs)"

text \<open>\<open>String.prototype.includes\<close>\<close>

fun str_includes :: "string \<Rightarrow> string \<Rightarrow> bool" where
  "str_includes [] sub = (sub = [])"
| "str_includes (x # xs) sub = (startsWith (x # xs) sub \<or> str_includes xs sub)"

text \<open>Decimal rendering of a number inside a template literal.\<close>

fun show_nat :: "nat \<Rightarrow> string" where
  "show_nat n =
     (if n < 10 then [''0123456789'' ! n]
      else show_nat (n div 10) @ [''0123456789'' ! (n mod 10)])"

declare show_nat.simps [simp del]

text \<open>\<open>Number.prototype.toLocaleString\<close> for a count, in the en-US locale: groups of three
  digits separated by commas.\<close>

fun toLocaleString :: "nat \<Rightarrow> string" where
  "toLocaleString n =
     (if n < 1000 then show_nat n
      else toLocaleString (n div 1000) @ '','' @
           [''0123456789'' ! (n mod 1000 div 100), ''0123456789'' ! (n mod 100 div 10),
            ''0123456789'' ! (n mod 10)])"

declare toLocaleString.simps [simp del]

text \<open>The check mark U+2713 that opens the success messages, in UTF-8.\<close>

definition checkMark :: string where
  "checkMark = [CHR 0xE2, CHR 0x9C, CHR 0x93]"

section \<open>Record normalizer (\<open>handleFileSelect\<close>)\<close>







text \<open>
  The ways the checks between \<open>normalizeData\<close> and \<open>setOriginalData\<close> refuse the data.
  \<open>ValidationThrew\<close>: the checks call \<open>firstRow.hasOwnProperty(...)\<close>, the property of the
  row itself; when the file has a column named \<open>hasOwnProperty\<close> that property is a string,
  the call throws a \<open>TypeError\<close>, and the \<open>catch\<close> block of \<open>reader.onload\<close> reports it
  with the message of the engine (\<open>typeErrorMessage\<close>).
\<close>

datatype upload_error = ValidationThrew | MissingColumns | MissingSkuValue | MissingNameValue


text \<open>The checks themselves. A property holding the empty string is falsy.\<close>

definition validateNormalized :: "product list \<Rightarrow> upload_error option" where
  "validateNormalized normalizedData =
     (case normalizedData of
        [] \<Rightarrow> None
      | firstRow # _ \<Rightarrow>
          if obj_get ''hasOwnProperty'' firstRow \<noteq> None then Some ValidationThrew
          else if obj_get ''sku'' firstRow = None \<or> obj_get ''name'' firstRow = None
            then Some MissingColumns
          else if obj_get ''sku'' firstRow = Some [] then Some MissingSkuValue
          else if obj_get ''name'' firstRow = Some [] then Some MissingNameValue
          else None)"

section \<open>Generation client (\<open>geminiService\<close>)\<close>

record meta =
  m_sku :: "string option"
  metaTitle :: string
  metaDescription :: string

text \<open>
  What the \<open>catch\<close> block sees of a thrown value: the string it derives from it, and the
  \<open>error\<close> member of that string parsed as JSON when there is one (its \<open>message\<close>, empty
  when falsy, and its \<open>status\<close>).
\<close>

record caught =
  rawErrorString :: string
  parsedError :: "(string \<times> string option) option"

text \<open>
  What the call to the model does inside the \<open>try\<close> block: it throws (the request is
  rejected, or the text is not JSON), or the text parses to something that is not an
  array, or to an array of items, with the token count of the response.
\<close>

datatype api_result = Throws caught | NotArray | Items "meta list" nat

definition classify :: "caught \<Rightarrow> bool \<times> string" where
  "classify e =
     (let detailedMessage =
            (case parsedError e of
               None \<Rightarrow> rawErrorString e
             | Some (msg, status) \<Rightarrow> if msg \<noteq> [] then msg else rawErrorString e);
          isQuotaError =
            (case parsedError e of
               None \<Rightarrow> False
             | Some (msg, status) \<Rightarrow> status = Some ''RESOURCE_EXHAUSTED'')
      in (isQuotaError \<or> str_includes detailedMessage ''RESOURCE_EXHAUSTED''
            \<or> str_includes detailedMessage ''quota'',
          detailedMessage))"

definition rethrow :: "string \<Rightarrow> caught \<Rightarrow> string" where
  "rethrow failurePrefix e =
     (if fst (classify e) then ''[QUOTA_EXCEEDED] '' @ snd (classify e)
      else failurePrefix @ snd (classify e))"

definition stripGenerated :: "product \<Rightarrow> product" where
  "stripGenerated p = obj_rest [''Meta Title'', ''Meta Description''] p"

text \<open>The prompts. \<open>stringify\<close> stands for \<open>JSON.stringify(_, null, 2)\<close>.\<close>

definition batchPrompt :: "(product list \<Rightarrow> string) \<Rightarrow> string \<Rightarrow> product list \<Rightarrow> string" where
  "batchPrompt stringify instructions products =
     [CHR 0x0A] @ ''        '' @ instructions @ [CHR 0x0A, CHR 0x0A] @
     ''        Your task is to generate a meta title and a meta description for EACH product in the following JSON list, using the provided product attributes.'' @
     [CHR 0x0A, CHR 0x0A] @ ''        Product List:'' @ [CHR 0x0A] @
     ''        '' @ stringify (map stripGenerated products) @ [CHR 0x0A] @ ''    ''"

definition singlePrompt :: "(product \<Rightarrow> string) \<Rightarrow> string \<Rightarrow> product \<Rightarrow> string" where
  "singlePrompt stringify instructions product =
     [CHR 0x0A] @
     ''        Your task is to generate a new meta title and a new meta description for the following product.'' @
     [CHR 0x0A] @ ''        '' @ [CHR 0x0A] @ ''        '' @ instructions @ [CHR 0x0A, CHR 0x0A] @
     ''        Product Details:'' @ [CHR 0x0A] @
     ''        '' @ stringify (stripGenerated product) @ [CHR 0x0A] @ ''    ''"

definition fallbackMeta :: "string option \<Rightarrow> meta" where
  "fallbackMeta k =
     \<lparr>m_sku = k, metaTitle = ''Error: No AI Response'',
      metaDescription = ''The AI did not provide a response for this item in the batch.''\<rparr>"

definition finalResults :: "product list \<Rightarrow> meta list \<Rightarrow> meta list" where
  "finalResults products parsedJson =
     (let returnedResultsMap = js_Map (map (\<lambda>item. (m_sku item, item)) parsedJson) in
      map (\<lambda>originalProduct.
             case returnedResultsMap (sku originalProduct) of
               Some result \<Rightarrow>
                 \<lparr>m_sku = m_sku result, metaTitle = metaTitle result,
                  metaDescription = metaDescription result\<rparr>
             | None \<Rightarrow> fallbackMeta (sku originalProduct))
        products)"

text \<open>The outcome of a call: \<open>Inl\<close> carries the message of the error thrown to the
  caller, \<open>Inr\<close> the results and the token count.\<close>

definition generateMetaContentForBatch :: "product list \<Rightarrow> api_result \<Rightarrow> string + (meta list \<times> nat)" where
  "generateMetaContentForBatch products response =
     (case response of
        Throws e \<Rightarrow> Inl (rethrow ''Failed to generate meta content for a batch of products. '' e)
      | NotArray \<Rightarrow>
          Inl (rethrow ''Failed to generate meta content for a batch of products. ''
                 \<lparr>rawErrorString = ''API response was not a JSON array as expected.'',
                  parsedError = None\<rparr>)
      | Items parsedJson totalTokens \<Rightarrow> Inr (finalResults products parsedJson, totalTokens))"

datatype single_result = SThrows caught | SResult meta nat

definition skuText :: "string option \<Rightarrow> string" where
  "skuText k = (case k of None \<Rightarrow> ''undefined'' | Some s \<Rightarrow> s)"

definition generateMetaContentForSingleProduct :: "product \<Rightarrow> single_result \<Rightarrow> string + (meta \<times> nat)" where
  "generateMetaContentForSingleProduct product response =
     (case response of
        SThrows e \<Rightarrow>
          Inl (rethrow (''Failed to generate meta content for product SKU '' @ skuText (sku product) @ ''. '') e)
      | SResult result totalTokens \<Rightarrow> Inr (result, totalTokens))"

section \<open>Application state (\<open>App\<close>)\<close>

text \<open>The blob stored under \<open>riva-meta-generator-session\<close>.\<close>

record saved_session =
  fileName :: string
  s_originalData :: "product list"
  s_processedData :: "product list"
  s_isResumable :: bool

text \<open>
  The state of the component: its \<open>useState\<close> cells, the cancellation ref and the
  session item of \<open>localStorage\<close> (\<open>storage\<close>, \<open>None\<close> when the item is absent). The file
  (\<open>file'\<close>) is known by its name. The progress percentage, the token estimate and the theme take no
  part in what follows and are left out.

  The last two fields record what the dependency array \<open>[processedData, isResumable]\<close> of
  the synchronising effect is compared with at the next render: whether \<open>processedData\<close>
  has been set since the last render (every \<open>setProcessedData\<close> here installs a new array),
  and the value of \<open>isResumable\<close> at the last render.
\<close>

record app_state =
  originalData :: "product list"
  processedData :: "product list"
  isLoading :: bool
  error :: "string option"
  file' :: "string option"
  progressMessage :: "string option"
  regeneratingSkus :: "string option set"
  savedSession :: "saved_session option"
  isResumable :: bool
  isCancelled :: bool
  storage :: "saved_session option"
  processedDataSet :: bool
  renderedResumable :: bool

text \<open>The initial values of the \<open>useState\<close> cells and of the ref, with no session stored.\<close>

definition initialState :: app_state where
  "initialState =
     \<lparr>originalData = [], processedData = [], isLoading = False, error = None, file' = None,
      progressMessage = None, regeneratingSkus = {}, savedSession = None, isResumable = False,
      isCancelled = False, storage = None, processedDataSet = False, renderedResumable = False\<rparr>"

definition setProcessedData :: "product list \<Rightarrow> app_state \<Rightarrow> app_state" where
  "setProcessedData v st = st\<lparr>processedData := v, processedDataSet := True\<rparr>"

text \<open>
  A function of the component body closes over the state of the render that created it:
  where its text reads \<open>file\<close>, \<open>originalData\<close> or \<open>processedData\<close>, it reads the values
  of that render, also after an \<open>await\<close>. \<open>cl\<close> is that render's state; \<open>st\<close> is the
  state the call acts on, which the setters and the updater functions passed to them read
  and write. For \<open>handleGenerate\<close>, \<open>handleResume\<close> and \<open>handleRegenerateRow\<close>, kept by
  \<open>useCallback\<close>, \<open>cl\<close> is the render at which one of their dependencies last changed.
\<close>

definition saveCurrentStateToSession :: "app_state \<Rightarrow> bool \<Rightarrow> app_state \<Rightarrow> app_state" where
  "saveCurrentStateToSession cl isPartial st =
     (case file' cl of
        None \<Rightarrow> st
      | Some name \<Rightarrow>
          if originalData cl \<noteq> [] then
            st\<lparr>storage := Some \<lparr>fileName = name, s_originalData = originalData cl,
                                s_processedData = processedData cl, s_isResumable = isPartial\<rparr>\<rparr>
          else st)"

text \<open>The effect \<open>Syncs edits to localStorage\<close>, run by the render that follows a change of
  \<open>processedData\<close> or \<open>isResumable\<close>, with that render's own closure.\<close>

definition syncEffect :: "app_state \<Rightarrow> app_state" where
  "syncEffect st =
     (if file' st \<noteq> None \<and> processedData st \<noteq> [] \<and> storage st \<noteq> None
      then saveCurrentStateToSession st (isResumable st) st else st)"

text \<open>A render: the state updates made since the last one (those of one event handler, or
  of the stretch of an async function between two \<open>await\<close>s) are committed together, and the
  effect runs when one of its dependencies has changed.\<close>

definition render :: "app_state \<Rightarrow> app_state" where
  "render st =
     (let st' = (if processedDataSet st \<or> isResumable st \<noteq> renderedResumable st
                 then syncEffect st else st)
      in st'\<lparr>processedDataSet := False, renderedResumable := isResumable st\<rparr>)"


definition handleStop :: "app_state \<Rightarrow> app_state" where
  "handleStop st = st\<lparr>isCancelled := True\<rparr>"


section \<open>Batch orchestrator (\<open>runGenerationProcess\<close>)\<close>

text \<open>The \<open>for\<close> loop that slices \<open>productsToProcess\<close> into chunks of \<open>BATCH_SIZE\<close>.\<close>

definition BATCH_SIZE :: nat where
  "BATCH_SIZE = 15"

function chunksFrom :: "nat \<Rightarrow> product list \<Rightarrow> product list list" where
  "chunksFrom i productsToProcess =
     (if i < length productsToProcess
      then take BATCH_SIZE (drop i productsToProcess) # chunksFrom (i + BATCH_SIZE) productsToProcess
      else [])"
  by pat_completeness auto
termination
  by (relation "measure (\<lambda>(i, ps). length ps - i)") (auto simp: BATCH_SIZE_def)

declare chunksFrom.simps [simp del]

definition productChunks :: "product list \<Rightarrow> product list list" where
  "productChunks productsToProcess = chunksFrom 0 productsToProcess"

text \<open>\<open>meta?.metaTitle || 'Error: Not Generated'\<close>: an absent or empty text gives the
  placeholder.\<close>

definition orNotGenerated :: "string option \<Rightarrow> string" where
  "orNotGenerated t = (case t of None \<Rightarrow> ''Error: Not Generated''
                       | Some s \<Rightarrow> if s \<noteq> [] then s else ''Error: Not Generated'')"

definition processedChunk :: "product list \<Rightarrow> meta list \<Rightarrow> product list" where
  "processedChunk chunk generatedMetas =
     (let metasMap = js_Map (map (\<lambda>m. (m_sku m, m)) generatedMetas) in
      map (\<lambda>product.
             let meta = metasMap (sku product) in
             withMeta (orNotGenerated (map_option metaTitle meta))
                      (orNotGenerated (map_option metaDescription meta)) product)
        chunk)"

text \<open>The updater passed to \<open>setProcessedData\<close> after a chunk.\<close>

definition mergeProcessed :: "product list \<Rightarrow> product list \<Rightarrow> product list \<Rightarrow> product list" where
  "mergeProcessed original prevData currentRunResults =
     (let newDataMap = js_Map (map (\<lambda>p. (sku p, p)) prevData)
                         ++ js_Map (map (\<lambda>p. (sku p, p)) currentRunResults)
      in List.map_filter (\<lambda>og. newDataMap (sku og)) original)"

definition processingMessage :: "nat \<Rightarrow> nat \<Rightarrow> string" where
  "processingMessage processedCount n =
     ''Processing... ('' @ show_nat processedCount @ '' of '' @ show_nat n @ '' products)''"

definition quotaMessage :: "nat \<Rightarrow> nat \<Rightarrow> string" where
  "quotaMessage processedCount n =
     ''Daily token limit reached. '' @ show_nat processedCount @ '' of '' @ show_nat n @
     '' products were processed. You can download the partial results now or resume later when your quota is reset (midnight UTC).''"

definition completeMessage :: "nat \<Rightarrow> nat \<Rightarrow> string" where
  "completeMessage n tokens =
     checkMark @ '' Generation complete for '' @ show_nat n @ '' products! Tokens used: '' @
     toLocaleString tokens"

definition allProcessedMessage :: string where
  "allProcessedMessage = checkMark @ '' All products have been processed!''"

text \<open>
  The local variables of a run, with the state they act on. \<open>dispatched\<close> logs the chunks
  handed to \<open>generateMetaContentForBatch\<close>, in order.
\<close>

record job =
  ui :: app_state
  currentRunResults :: "product list"
  totalTokensThisRun :: nat
  dispatched :: "product list list"

datatype loop_exit = Cancelled | Exhausted | Threw string

text \<open>The statements of the loop body that follow a successful \<open>await\<close>.\<close>

definition mergeChunk :: "app_state \<Rightarrow> product list \<Rightarrow> meta list \<Rightarrow> nat \<Rightarrow> job \<Rightarrow> job" where
  "mergeChunk cl chunk generatedMetas totalTokens j =
     (let results = currentRunResults j @ processedChunk chunk generatedMetas;
          overallProcessedCount = length (processedData cl) + length results
      in j\<lparr>ui := (setProcessedData
                    (mergeProcessed (originalData cl) (processedData (ui j)) results) (ui j))
                   \<lparr>progressMessage :=
                      Some (processingMessage overallProcessedCount (length (originalData cl)))\<rparr>,
           currentRunResults := results,
           totalTokensThisRun := totalTokensThisRun j + totalTokens\<rparr>)"

text \<open>
  The run is suspended at each \<open>await\<close>: the component renders, chunk \<open>i\<close> is handed to
  \<open>generateMetaContentForBatch\<close>, the call settles with \<open>fst (env i)\<close>, and \<open>snd (env i)\<close>
  tells whether the user pressed Stop (\<open>handleStop\<close>) in the meantime.
\<close>

definition awaitCall :: "(nat \<Rightarrow> api_result \<times> bool) \<Rightarrow> nat \<Rightarrow> product list \<Rightarrow> job \<Rightarrow> job" where
  "awaitCall env i chunk j =
     j\<lparr>ui := (if snd (env i) then handleStop else id) (render (ui j)),
       dispatched := dispatched j @ [chunk]\<rparr>"

text \<open>The loop over the chunks.\<close>

fun chunkLoop :: "app_state \<Rightarrow> (nat \<Rightarrow> api_result \<times> bool) \<Rightarrow> nat \<Rightarrow> product list list \<Rightarrow> job
    \<Rightarrow> loop_exit \<times> job" where
  "chunkLoop cl env i [] j = (Exhausted, j)"
| "chunkLoop cl env i (chunk # rest) j =
     (if isCancelled (ui j) then (Cancelled, j)
      else if chunk = [] then chunkLoop cl env (Suc i) rest j
      else
        case generateMetaContentForBatch chunk (fst (env i)) of
          Inl errorMessage \<Rightarrow> (Threw errorMessage, awaitCall env i chunk j)
        | Inr (generatedMetas, totalTokens) \<Rightarrow>
            chunkLoop cl env (Suc i) rest
              (mergeChunk cl chunk generatedMetas totalTokens (awaitCall env i chunk j)))"

text \<open>How a call of a handler ended: the branch of \<open>runGenerationProcess\<close> that settled the
  run, or \<open>NotStarted\<close> when the handler returned without starting one.\<close>

datatype outcome = NotStarted | AllProcessed | Stopped | Completed | QuotaExceeded | Failed

record run_result =
  final :: app_state
  calls :: "product list list"
  settled :: outcome

text \<open>What follows the loop: the two branches after it, the \<open>catch\<close> block and the
  \<open>finally\<close> block, and the render that ends the run.\<close>

definition settle :: "app_state \<Rightarrow> loop_exit \<times> job \<Rightarrow> run_result" where
  "settle cl r =
     (let j = snd r; st = ui j in
      case fst r of
        Cancelled \<Rightarrow>
          \<lparr>final = render ((saveCurrentStateToSession cl True
                      (st\<lparr>progressMessage := Some ''Generation stopped. Ready to resume.'',
                          isResumable := True\<rparr>))\<lparr>isLoading := False\<rparr>),
           calls = dispatched j, settled = Stopped\<rparr>
      | Exhausted \<Rightarrow>
          \<lparr>final = render ((saveCurrentStateToSession cl False
                      (st\<lparr>progressMessage :=
                            Some (completeMessage (length (originalData cl)) (totalTokensThisRun j))\<rparr>))
                      \<lparr>isLoading := False\<rparr>),
           calls = dispatched j, settled = Completed\<rparr>
      | Threw errorMessage \<Rightarrow>
          if str_includes errorMessage ''[QUOTA_EXCEEDED]'' then
            \<lparr>final = render ((saveCurrentStateToSession cl True
                        (st\<lparr>error := Some (quotaMessage
                                (length (processedData cl) + length (currentRunResults j))
                                (length (originalData cl))),
                            isResumable := True\<rparr>))
                        \<lparr>progressMessage := None, isLoading := False\<rparr>),
             calls = dispatched j, settled = QuotaExceeded\<rparr>
          else
            \<lparr>final = render (st\<lparr>error := Some errorMessage, progressMessage := None,
                                 isLoading := False\<rparr>),
             calls = dispatched j, settled = Failed\<rparr>)"

definition runGenerationProcess :: "app_state \<Rightarrow> (nat \<Rightarrow> api_result \<times> bool) \<Rightarrow> product list
    \<Rightarrow> app_state \<Rightarrow> run_result" where
  "runGenerationProcess cl env productsToProcess st =
     (let st1 = st\<lparr>isLoading := True, error := None, isResumable := False\<rparr> in
      if productsToProcess = [] then
        \<lparr>final = render (st1\<lparr>isLoading := False, progressMessage := Some allProcessedMessage\<rparr>),
         calls = [], settled = AllProcessed\<rparr>
      else
        settle cl
          (chunkLoop cl env 0 (productChunks productsToProcess)
             \<lparr>ui = st1\<lparr>progressMessage :=
                        Some (processingMessage (length (processedData cl))
                                (length (originalData cl)))\<rparr>,
              currentRunResults = [], totalTokensThisRun = 0, dispatched = []\<rparr>))"

definition handleGenerate :: "app_state \<Rightarrow> (nat \<Rightarrow> api_result \<times> bool) \<Rightarrow> app_state \<Rightarrow> run_result" where
  "handleGenerate cl env st =
     (if originalData cl = [] then
        \<lparr>final = render (st\<lparr>error :=
                    Some ''No product data to process. Please upload a valid CSV or Excel file.''\<rparr>),
         calls = [], settled = NotStarted\<rparr>
      else runGenerationProcess cl env (originalData cl)
             (setProcessedData [] (st\<lparr>isCancelled := False\<rparr>)))"

definition remainingProducts :: "app_state \<Rightarrow> product list" where
  "remainingProducts cl =
     (let processedSkus = set (map sku (processedData cl)) in
      filter (\<lambda>p. sku p \<notin> processedSkus) (originalData cl))"

definition handleResume :: "app_state \<Rightarrow> (nat \<Rightarrow> api_result \<times> bool) \<Rightarrow> app_state \<Rightarrow> run_result" where
  "handleResume cl env st =
     runGenerationProcess cl env (remainingProducts cl) (st\<lparr>isCancelled := False\<rparr>)"

section \<open>Row override (\<open>handleRegenerateRow\<close>)\<close>

text \<open>
  The handler in two parts: the statements before the \<open>await\<close>, and the
  \<open>try\<close>/\<open>catch\<close>/\<open>finally\<close> statements that run once the call has settled, on the state
  as it is then. \<open>settledCall\<close> is the outcome of \<open>generateMetaContentForSingleProduct\<close>.
\<close>

definition regenerateStart :: "product \<Rightarrow> app_state \<Rightarrow> app_state" where
  "regenerateStart productToRegenerate st =
     render (st\<lparr>regeneratingSkus := insert (sku productToRegenerate) (regeneratingSkus st),
                error := None\<rparr>)"

definition regenerateSettle :: "product \<Rightarrow> string + (meta \<times> nat) \<Rightarrow> app_state \<Rightarrow> app_state" where
  "regenerateSettle productToRegenerate settledCall st =
     (let k = sku productToRegenerate;
          st1 =
            (case settledCall of
               Inr (result, totalTokens) \<Rightarrow>
                 setProcessedData
                   (map (\<lambda>row. if sku row = k
                                then withMeta (metaTitle result) (metaDescription result) row
                                else row)
                      (processedData st)) st
             | Inl errorMessage \<Rightarrow>
                 if str_includes errorMessage ''[QUOTA_EXCEEDED]'' then
                   st\<lparr>error := Some (''Daily token limit reached. Regeneration failed for SKU '' @
                          skuText k @
                          ''. Please try again later when your quota resets (midnight UTC).'')\<rparr>
                 else
                   setProcessedData
                     (map (\<lambda>row. if sku row = k
                                  then withMeta ''Error: Regeneration failed''
                                         ''Please try again or edit manually.'' row
                                  else row)
                        (processedData st)) st)
      in render (st1\<lparr>regeneratingSkus := regeneratingSkus st1 - {k}\<rparr>))"

definition handleRegenerateRow :: "product \<Rightarrow> single_result \<Rightarrow> app_state \<Rightarrow> app_state" where
  "handleRegenerateRow productToRegenerate response st =
     regenerateSettle productToRegenerate
       (generateMetaContentForSingleProduct productToRegenerate response)
       (regenerateStart productToRegenerate st)"

section \<open>Vocabulary of the properties\<close>

text \<open>The call for a chunk returns exactly when the response parsed as an array.\<close>

definition returns :: "api_result \<Rightarrow> bool" where
  "returns response = (case response of Items parsedJson totalTokens \<Rightarrow> True | _ \<Rightarrow> False)"

text \<open>The results of a call that returned (none for one that threw).\<close>

definition batchMetas :: "product list \<Rightarrow> api_result \<Rightarrow> meta list" where
  "batchMetas chunk response =
     (case generateMetaContentForBatch chunk response of
        Inr (generatedMetas, totalTokens) \<Rightarrow> generatedMetas
      | Inl errorMessage \<Rightarrow> [])"

text \<open>The processed records of the first \<open>n\<close> chunks, in order.\<close>

definition resultsOfChunks :: "(nat \<Rightarrow> api_result \<times> bool) \<Rightarrow> product list list \<Rightarrow> nat \<Rightarrow> product list" where
  "resultsOfChunks env chunks n =
     concat (map (\<lambda>k. processedChunk (chunks ! k) (batchMetas (chunks ! k) (fst (env k)))) [0..<n])"

text \<open>The value of the cancellation flag when chunk \<open>k\<close> comes up in a run started in
  \<open>st\<close>: set from the start, or by a press of Stop during an earlier call.\<close>

definition flagBefore :: "app_state \<Rightarrow> (nat \<Rightarrow> api_result \<times> bool) \<Rightarrow> nat \<Rightarrow> bool" where
  "flagBefore st env k = (isCancelled st \<or> (\<exists>i<k. snd (env i)))"

text \<open>The snapshot of a state, as \<open>saveCurrentStateToSession\<close> writes it.\<close>

definition snapshot :: "string \<Rightarrow> app_state \<Rightarrow> bool \<Rightarrow> saved_session" where
  "snapshot name st isPartial =
     \<lparr>fileName = name, s_originalData = originalData st, s_processedData = processedData st,
      s_isResumable = isPartial\<rparr>"

text \<open>The job with which a run over a non-empty list enters the loop.\<close>

definition startJob :: "app_state \<Rightarrow> app_state \<Rightarrow> job" where
  "startJob cl st =
     \<lparr>ui = st\<lparr>isLoading := True, error := None, isResumable := False,
               progressMessage := Some (processingMessage (length (processedData cl))
                                          (length (originalData cl)))\<rparr>,
      currentRunResults = [], totalTokensThisRun = 0, dispatched = []\<rparr>"

section \<open>Example data\<close>




definition exA :: product where "exA = [(''sku'', ''A''), (''name'', ''Shirt'')]"
definition exB :: product where "exB = [(''sku'', ''B''), (''name'', ''Dress'')]"
definition exC :: product where "exC = [(''sku'', ''C''), (''name'', ''Scarf'')]"
definition exD :: product where "exD = [(''sku'', ''D''), (''name'', ''Boots'')]"

definition exampleRecord :: "nat \<Rightarrow> product" where
  "exampleRecord i = [(''sku'', ''p'' @ show_nat i), (''name'', ''Product'')]"

definition exampleRecords :: "nat \<Rightarrow> product list" where
  "exampleRecords n = map exampleRecord [1..<Suc n]"


text \<open>Seventeen records of which the third and the sixteenth have an empty key.\<close>

definition recordsWithEmptyKeys :: "product list" where
  "recordsWithEmptyKeys =
     (exampleRecords 17)[2 := [(''sku'', []), (''name'', ''Third'')],
                         15 := [(''sku'', []), (''name'', ''Sixteenth'')]]"

text \<open>A state in which a run over thirty-two records was cut short after its first chunk:
  resumable, with its session stored.\<close>

definition partlyProcessedState :: app_state where
  "partlyProcessedState =
     initialState\<lparr>originalData := exampleRecords 32,
                  processedData := map (withMeta ''T'' ''D'') (exampleRecords 15),
                  file' := Some ''products.csv'', isResumable := True, renderedResumable := True,
                  storage := Some \<lparr>fileName = ''products.csv'',
                                   s_originalData = exampleRecords 32,
                                   s_processedData = map (withMeta ''T'' ''D'') (exampleRecords 15),
                                   s_isResumable = True\<rparr>\<rparr>"

text \<open>The first call returns; every later call fails for lack of quota.\<close>

definition quotaAfterFirstCall :: "nat \<Rightarrow> api_result \<times> bool" where
  "quotaAfterFirstCall i =
     (if i = 0 then (Items [] 100, False)
      else (Throws \<lparr>rawErrorString = ''quota exceeded'', parsedError = None\<rparr>, False))"


section \<open>Generation client: what is sent and what comes back\<close>

lemma obj_rest_obj_set: "k \<in> set ks \<Longrightarrow> obj_rest ks (obj_set k v p) = obj_rest ks p"
  by (induction p) (auto simp: obj_rest_def)

lemma stripGenerated_withMeta: "stripGenerated (withMeta t d p) = stripGenerated p"
  by (simp add: stripGenerated_def withMeta_def obj_rest_obj_set)

lemma stripGenerated_keys:
  "obj_get ''Meta Title'' (stripGenerated p) = None \<and>
   obj_get ''Meta Description'' (stripGenerated p) = None"
  by (auto simp: stripGenerated_def obj_rest_def obj_get_def map_of_eq_None_iff)

text \<open>
  C8. Both prompts are built from the record without its \<open>Meta Title\<close> and
  \<open>Meta Description\<close> properties: whatever values those two properties held, the prompt is
  the one built from the record itself, and no record serialized into a batch prompt has
  either property.
\<close>

theorem generated_fields_never_sent:
  "batchPrompt stringify instructions (map (\<lambda>x. withMeta (t x) (d x) (p x)) xs)
     = batchPrompt stringify instructions (map p xs)
   \<and> singlePrompt stringify1 instructions (withMeta t1 d1 p1)
     = singlePrompt stringify1 instructions p1
   \<and> list_all (\<lambda>q. obj_get ''Meta Title'' q = None \<and> obj_get ''Meta Description'' q = None)
       (map stripGenerated ps)"
  by (simp add: batchPrompt_def singlePrompt_def stripGenerated_withMeta stripGenerated_keys
      comp_def list_all_iff)

lemma js_Map_key: "js_Map (map (\<lambda>x. (f x, x)) xs) k = Some y \<Longrightarrow> f y = k \<and> y \<in> set xs"
  unfolding js_Map_def by (auto simp: rev_map[symmetric] dest!: map_of_SomeD)

lemma js_Map_None: "js_Map (map (\<lambda>x. (f x, x)) xs) k = None \<longleftrightarrow> k \<notin> f ` set xs"
  unfolding js_Map_def by (auto simp: map_of_eq_None_iff image_iff)

lemma finalResults_length: "length (finalResults products items) = length products"
  by (simp add: finalResults_def)

lemma finalResults_sku: "map m_sku (finalResults products items) = map sku products"
  by (auto simp: finalResults_def fallbackMeta_def split: option.splits dest: js_Map_key)

lemma finalResults_fallback:
  "i < length products \<Longrightarrow> sku (products ! i) \<notin> m_sku ` set items \<Longrightarrow>
   finalResults products items ! i = fallbackMeta (sku (products ! i))"
  by (simp add: finalResults_def js_Map_None[THEN iffD2])

text \<open>
  C5. A call of \<open>generateMetaContentForBatch\<close> that returns does so on a response that
  parsed as an array, and returns one result per input record, in the order of the input and
  carrying the key of its record; where no item of the response has the key of a record, the
  result for that record is the fallback with the text \<open>Error: No AI Response\<close>.
\<close>

theorem generateBatch_one_result_per_record:
  assumes "generateMetaContentForBatch products response = Inr (results, totalTokens)"
  shows "length results = length products
       \<and> map m_sku results = map sku products
       \<and> (\<exists>parsedJson. response = Items parsedJson totalTokens
            \<and> (\<forall>i < length products. sku (products ! i) \<notin> m_sku ` set parsedJson \<longrightarrow>
                 results ! i =
                   \<lparr>m_sku = sku (products ! i), metaTitle = ''Error: No AI Response'',
                    metaDescription =
                      ''The AI did not provide a response for this item in the batch.''\<rparr>))"
proof (cases response)
  case (Items parsedJson n)
  with assms have r: "results = finalResults products parsedJson" and n: "n = totalTokens"
    by (simp_all add: generateMetaContentForBatch_def)
  show ?thesis
    unfolding r using Items n
    by (simp add: finalResults_length finalResults_sku finalResults_fallback
        fallbackMeta_def[symmetric])
qed (use assms in \<open>simp_all add: generateMetaContentForBatch_def\<close>)

theorem generateBatch_one_result_per_record_witness:
  "generateMetaContentForBatch [[(''sku'', ''A'')], [(''sku'', ''B'')]]
     (Items [\<lparr>m_sku = Some ''A'', metaTitle = ''T'', metaDescription = ''D''\<rparr>] 7)
   = Inr ([\<lparr>m_sku = Some ''A'', metaTitle = ''T'', metaDescription = ''D''\<rparr>,
           \<lparr>m_sku = Some ''B'', metaTitle = ''Error: No AI Response'',
            metaDescription = ''The AI did not provide a response for this item in the batch.''\<rparr>], 7)
   \<and> length [\<lparr>m_sku = Some ''A'', metaTitle = ''T'', metaDescription = ''D''\<rparr>,
           \<lparr>m_sku = Some ''B'', metaTitle = ''Error: No AI Response'',
            metaDescription = ''The AI did not provide a response for this item in the batch.''\<rparr>]
     = length [[(''sku'', ''A'')], [(''sku'', ''B'')]]"
proof -
  have h: "generateMetaContentForBatch [[(''sku'', ''A'')], [(''sku'', ''B'')]]
     (Items [\<lparr>m_sku = Some ''A'', metaTitle = ''T'', metaDescription = ''D''\<rparr>] 7)
   = Inr ([\<lparr>m_sku = Some ''A'', metaTitle = ''T'', metaDescription = ''D''\<rparr>,
           \<lparr>m_sku = Some ''B'', metaTitle = ''Error: No AI Response'',
            metaDescription = ''The AI did not provide a response for this item in the batch.''\<rparr>], 7)"
    by (simp add: generateMetaContentForBatch_def finalResults_def js_Map_def sku_def obj_get_def
        fallbackMeta_def)
  show ?thesis
    using h generateBatch_one_result_per_record [OF h] by simp
qed

section \<open>State bookkeeping\<close>

lemma save_fields [simp]:
  "processedData (saveCurrentStateToSession cl b st) = processedData st"
  "originalData (saveCurrentStateToSession cl b st) = originalData st"
  "isResumable (saveCurrentStateToSession cl b st) = isResumable st"
  "isCancelled (saveCurrentStateToSession cl b st) = isCancelled st"
  "isLoading (saveCurrentStateToSession cl b st) = isLoading st"
  "error (saveCurrentStateToSession cl b st) = error st"
  "file' (saveCurrentStateToSession cl b st) = file' st"
  "progressMessage (saveCurrentStateToSession cl b st) = progressMessage st"
  "regeneratingSkus (saveCurrentStateToSession cl b st) = regeneratingSkus st"
  "savedSession (saveCurrentStateToSession cl b st) = savedSession st"
  "processedDataSet (saveCurrentStateToSession cl b st) = processedDataSet st"
  "renderedResumable (saveCurrentStateToSession cl b st) = renderedResumable st"
  by (simp_all add: saveCurrentStateToSession_def split: option.splits)

lemma sync_fields [simp]:
  "processedData (syncEffect st) = processedData st"
  "originalData (syncEffect st) = originalData st"
  "isResumable (syncEffect st) = isResumable st"
  "isCancelled (syncEffect st) = isCancelled st"
  "isLoading (syncEffect st) = isLoading st"
  "error (syncEffect st) = error st"
  "file' (syncEffect st) = file' st"
  "progressMessage (syncEffect st) = progressMessage st"
  "regeneratingSkus (syncEffect st) = regeneratingSkus st"
  "savedSession (syncEffect st) = savedSession st"
  "processedDataSet (syncEffect st) = processedDataSet st"
  "renderedResumable (syncEffect st) = renderedResumable st"
  by (simp_all add: syncEffect_def)

lemma render_fields [simp]:
  "processedData (render st) = processedData st"
  "originalData (render st) = originalData st"
  "isResumable (render st) = isResumable st"
  "isCancelled (render st) = isCancelled st"
  "isLoading (render st) = isLoading st"
  "error (render st) = error st"
  "file' (render st) = file' st"
  "progressMessage (render st) = progressMessage st"
  "regeneratingSkus (render st) = regeneratingSkus st"
  "savedSession (render st) = savedSession st"
  "processedDataSet (render st) = False"
  "renderedResumable (render st) = isResumable st"
  by (simp_all add: render_def Let_def)

lemma setProcessedData_fields [simp]:
  "processedData (setProcessedData v st) = v"
  "originalData (setProcessedData v st) = originalData st"
  "isResumable (setProcessedData v st) = isResumable st"
  "isCancelled (setProcessedData v st) = isCancelled st"
  "isLoading (setProcessedData v st) = isLoading st"
  "error (setProcessedData v st) = error st"
  "file' (setProcessedData v st) = file' st"
  "progressMessage (setProcessedData v st) = progressMessage st"
  "regeneratingSkus (setProcessedData v st) = regeneratingSkus st"
  "savedSession (setProcessedData v st) = savedSession st"
  "storage (setProcessedData v st) = storage st"
  "processedDataSet (setProcessedData v st) = True"
  "renderedResumable (setProcessedData v st) = renderedResumable st"
  by (simp_all add: setProcessedData_def)

lemma rethrow_quota: "fst (classify e) \<Longrightarrow> str_includes (rethrow pre e) ''[QUOTA_EXCEEDED]''"
  by (simp add: rethrow_def)

lemma obj_get_obj_set: "obj_get k (obj_set k' v p) = (if k = k' then Some v else obj_get k p)"
  by (induction p) (auto simp: obj_get_def)

lemma sku_withMeta [simp]: "sku (withMeta t d p) = sku p"
  by (simp add: sku_def withMeta_def obj_get_obj_set)

section \<open>Row override\<close>

text \<open>
  C6. When a single-row regeneration settles, whatever the rows are at that moment:
  if the call failed with an error that does not carry the quota marker, the table keeps
  its length, every row whose key differs from that of the regenerated record is the row it
  was, and every row with that key has \<open>Error: Regeneration failed\<close> as its title,
  \<open>Please try again or edit manually.\<close> as its description and its other properties
  unchanged; if the call failed with the quota marker (as every error the client classifies
  as quota exhaustion does), the table is unchanged; in every outcome the key is no longer
  among the regenerating keys. The title sentinel differs from the one of the batch
  fallback.
\<close>

theorem regenerate_isolated:
  "(\<forall>errorMessage.
      settledCall = Inl errorMessage \<and> \<not> str_includes errorMessage ''[QUOTA_EXCEEDED]'' \<longrightarrow>
      length (processedData (regenerateSettle x settledCall st)) = length (processedData st)
    \<and> (\<forall>i < length (processedData st).
         (sku (processedData st ! i) \<noteq> sku x \<longrightarrow>
            processedData (regenerateSettle x settledCall st) ! i = processedData st ! i)
       \<and> (sku (processedData st ! i) = sku x \<longrightarrow>
            obj_get ''Meta Title'' (processedData (regenerateSettle x settledCall st) ! i)
              = Some ''Error: Regeneration failed''
          \<and> obj_get ''Meta Description'' (processedData (regenerateSettle x settledCall st) ! i)
              = Some ''Please try again or edit manually.''
          \<and> stripGenerated (processedData (regenerateSettle x settledCall st) ! i)
              = stripGenerated (processedData st ! i))))
   \<and> (\<forall>errorMessage.
        settledCall = Inl errorMessage \<and> str_includes errorMessage ''[QUOTA_EXCEEDED]'' \<longrightarrow>
        processedData (regenerateSettle x settledCall st) = processedData st)
   \<and> (\<forall>e. fst (classify e) \<longrightarrow>
        processedData (handleRegenerateRow x (SThrows e) st) = processedData st)
   \<and> sku x \<notin> regeneratingSkus (regenerateSettle x settledCall st)
   \<and> sku x \<notin> regeneratingSkus (handleRegenerateRow x response st)
   \<and> ''Error: Regeneration failed'' \<noteq> ''Error: No AI Response''"
  by (intro conjI allI impI)
     (auto simp: regenerateSettle_def Let_def handleRegenerateRow_def regenerateStart_def
        generateMetaContentForSingleProduct_def rethrow_quota obj_get_obj_set withMeta_def
        stripGenerated_def obj_rest_obj_set split: sum.splits)

theorem regenerate_isolated_witness:
  "\<not> str_includes ''service down'' ''[QUOTA_EXCEEDED]''
   \<and> processedData (regenerateSettle exA (Inl ''service down'')
        (initialState\<lparr>processedData := [withMeta ''T'' ''D'' exA, withMeta ''T2'' ''D2'' exB]\<rparr>)) ! 0
     = [(''sku'', ''A''), (''name'', ''Shirt''), (''Meta Title'', ''Error: Regeneration failed''),
        (''Meta Description'', ''Please try again or edit manually.'')]
   \<and> processedData (regenerateSettle exA (Inl ''service down'')
        (initialState\<lparr>processedData := [withMeta ''T'' ''D'' exA, withMeta ''T2'' ''D2'' exB]\<rparr>)) ! 1
     = withMeta ''T2'' ''D2'' exB
   \<and> fst (classify \<lparr>rawErrorString = ''quota exhausted'', parsedError = None\<rparr>)
   \<and> processedData (handleRegenerateRow exA
        (SThrows \<lparr>rawErrorString = ''quota exhausted'', parsedError = None\<rparr>)
        (initialState\<lparr>processedData := [withMeta ''T'' ''D'' exA, withMeta ''T2'' ''D2'' exB]\<rparr>))
     = [withMeta ''T'' ''D'' exA, withMeta ''T2'' ''D2'' exB]"
  using regenerate_isolated [of "Inl ''service down''" exA
      "initialState\<lparr>processedData := [withMeta ''T'' ''D'' exA, withMeta ''T2'' ''D2'' exB]\<rparr>"]
  by (simp add: regenerateSettle_def initialState_def exA_def exB_def withMeta_def sku_def
      obj_get_def classify_def)

section \<open>Record normalizer\<close>









section \<open>Runs over nothing\<close>

text \<open>
  C10. A run over no records dispatches no chunk, settles at once with the message that all
  products have been processed, leaves \<open>processedData\<close> as it was and leaves
  \<open>isResumable\<close> false; this is the run that \<open>handleResume\<close> starts when the key of every
  original record is already among the processed ones.
\<close>

theorem empty_run_settles_at_once:
  "calls (runGenerationProcess cl env [] st) = []
   \<and> settled (runGenerationProcess cl env [] st) = AllProcessed
   \<and> processedData (final (runGenerationProcess cl env [] st)) = processedData st
   \<and> isResumable (final (runGenerationProcess cl env [] st)) = False
   \<and> isLoading (final (runGenerationProcess cl env [] st)) = False
   \<and> progressMessage (final (runGenerationProcess cl env [] st)) = Some allProcessedMessage
   \<and> (list_all (\<lambda>p. sku p \<in> set (map sku (processedData cl))) (originalData cl) \<longrightarrow>
        calls (handleResume cl env st) = []
        \<and> settled (handleResume cl env st) = AllProcessed
        \<and> processedData (final (handleResume cl env st)) = processedData st
        \<and> isResumable (final (handleResume cl env st)) = False
        \<and> isLoading (final (handleResume cl env st)) = False
        \<and> progressMessage (final (handleResume cl env st)) = Some allProcessedMessage)"
proof -
  have resume: "handleResume cl env st = runGenerationProcess cl env [] (st\<lparr>isCancelled := False\<rparr>)"
    if "list_all (\<lambda>p. sku p \<in> set (map sku (processedData cl))) (originalData cl)"
    using that by (simp add: handleResume_def remainingProducts_def list_all_iff filter_empty_conv)
  show ?thesis
    by (auto simp: resume runGenerationProcess_def)
qed

theorem empty_run_settles_at_once_witness:
  "list_all (\<lambda>p. sku p \<in> set (map sku [withMeta ''T'' ''D'' exA, withMeta ''T2'' ''D2'' exB])) [exA, exB]
   \<and> calls (handleResume
        (initialState\<lparr>originalData := [exA, exB],
                      processedData := [withMeta ''T'' ''D'' exA, withMeta ''T2'' ''D2'' exB]\<rparr>)
        (\<lambda>i. (NotArray, False))
        (initialState\<lparr>originalData := [exA, exB],
                      processedData := [withMeta ''T'' ''D'' exA, withMeta ''T2'' ''D2'' exB],
                      isResumable := True\<rparr>)) = []
   \<and> isResumable (final (handleResume
        (initialState\<lparr>originalData := [exA, exB],
                      processedData := [withMeta ''T'' ''D'' exA, withMeta ''T2'' ''D2'' exB]\<rparr>)
        (\<lambda>i. (NotArray, False))
        (initialState\<lparr>originalData := [exA, exB],
                      processedData := [withMeta ''T'' ''D'' exA, withMeta ''T2'' ''D2'' exB],
                      isResumable := True\<rparr>))) = False"
  using empty_run_settles_at_once
          [of "initialState\<lparr>originalData := [exA, exB],
                      processedData := [withMeta ''T'' ''D'' exA, withMeta ''T2'' ''D2'' exB]\<rparr>"
              "\<lambda>i. (NotArray, False)"
              "initialState\<lparr>originalData := [exA, exB],
                      processedData := [withMeta ''T'' ''D'' exA, withMeta ''T2'' ''D2'' exB],
                      isResumable := True\<rparr>"]
  by (simp add: initialState_def exA_def exB_def sku_def obj_get_def withMeta_def)

section \<open>The loop over the chunks\<close>

lemma newDataMap_Some:
  "(js_Map (map (\<lambda>p. (sku p, p)) prev) ++ js_Map (map (\<lambda>p. (sku p, p)) crr)) k = Some p
   \<Longrightarrow> sku p = k \<and> (p \<in> set prev \<or> p \<in> set crr)"
  by (auto simp: map_add_Some_iff dest: js_Map_key)

lemma newDataMap_None:
  "(js_Map (map (\<lambda>p. (sku p, p)) prev) ++ js_Map (map (\<lambda>p. (sku p, p)) crr)) k = None
   \<longleftrightarrow> k \<notin> sku ` set prev \<union> sku ` set crr"
  by (auto simp: js_Map_None)

lemma mergeProcessed_skus:
  "map sku (mergeProcessed orig prev crr)
   = filter (\<lambda>k. k \<in> sku ` set prev \<union> sku ` set crr) (map sku orig)"
proof -
  define m where "m = js_Map (map (\<lambda>p. (sku p, p)) prev) ++ js_Map (map (\<lambda>p. (sku p, p)) crr)"
  have mNone: "m k = None \<longleftrightarrow> k \<notin> sku ` set prev \<union> sku ` set crr" for k
    unfolding m_def by (rule newDataMap_None)
  have mSome: "sku p = k" if "m k = Some p" for k p
    using that unfolding m_def by (rule newDataMap_Some [THEN conjunct1])
  have "map sku (List.map_filter (\<lambda>og. m (sku og)) xs)
        = filter (\<lambda>k. k \<in> sku ` set prev \<union> sku ` set crr) (map sku xs)" for xs
  proof (induction xs)
    case Nil
    then show ?case by simp
  next
    case (Cons x xs)
    show ?case
    proof (cases "m (sku x)")
      case None
      then show ?thesis using Cons mNone [of "sku x"] by simp
    next
      case (Some p)
      then have "sku p = sku x" using mSome by blast
      moreover have "sku x \<in> sku ` set prev \<union> sku ` set crr"
        using Some mNone [of "sku x"] by auto
      ultimately show ?thesis using Cons Some by simp
    qed
  qed
  then show ?thesis by (simp add: mergeProcessed_def m_def)
qed

lemma mergeProcessed_keys:
  "sku ` set (mergeProcessed orig prev crr)
   = sku ` set orig \<inter> (sku ` set prev \<union> sku ` set crr)"
proof -
  have "sku ` set (mergeProcessed orig prev crr) = set (map sku (mergeProcessed orig prev crr))"
    by simp
  also have "\<dots> = sku ` set orig \<inter> (sku ` set prev \<union> sku ` set crr)"
    unfolding mergeProcessed_skus by auto
  finally show ?thesis .
qed

lemma processedChunk_skus [simp]: "map sku (processedChunk chunk metas) = map sku chunk"
  by (simp add: processedChunk_def Let_def comp_def)

lemma processedChunk_length [simp]: "length (processedChunk chunk metas) = length chunk"
  by (simp add: processedChunk_def Let_def)

lemma processedChunk_keys [simp]: "sku ` set (processedChunk chunk metas) = sku ` set chunk"
  using processedChunk_skus [of chunk metas] by (metis set_map)

lemma chunksFrom_nonempty: "[] \<notin> set (chunksFrom i ps)"
proof (induction i ps rule: chunksFrom.induct)
  case (1 i ps)
  then show ?case
    by (subst chunksFrom.simps) (auto simp: BATCH_SIZE_def)
qed

lemma chunksFrom_concat: "concat (chunksFrom i ps) = drop i ps"
proof (induction i ps rule: chunksFrom.induct)
  case (1 i ps)
  show ?case
  proof (cases "i < length ps")
    case True
    have "take BATCH_SIZE (drop i ps) @ drop (i + BATCH_SIZE) ps = drop i ps"
      by (metis add.commute append_take_drop_id drop_drop)
    with True 1 show ?thesis by (subst chunksFrom.simps) simp
  next
    case False
    then show ?thesis by (subst chunksFrom.simps) simp
  qed
qed

lemma productChunks_concat: "concat (productChunks ps) = ps"
  by (simp add: productChunks_def chunksFrom_concat)

lemma productChunks_nonempty: "[] \<notin> set (productChunks ps)"
  by (simp add: productChunks_def chunksFrom_nonempty)

lemma productChunks_Nil_iff: "productChunks ps = [] \<longleftrightarrow> ps = []"
  by (metis productChunks_concat concat.simps(1) productChunks_def chunksFrom.simps
      list.distinct(1) length_greater_0_conv)

lemma mergeChunk_fields [simp]:
  "isCancelled (ui (mergeChunk cl chunk metas tokens j)) = isCancelled (ui j)"
  "dispatched (mergeChunk cl chunk metas tokens j) = dispatched j"
  "currentRunResults (mergeChunk cl chunk metas tokens j)
     = currentRunResults j @ processedChunk chunk metas"
  "totalTokensThisRun (mergeChunk cl chunk metas tokens j) = totalTokensThisRun j + tokens"
  "processedData (ui (mergeChunk cl chunk metas tokens j))
     = mergeProcessed (originalData cl) (processedData (ui j))
         (currentRunResults j @ processedChunk chunk metas)"
  "originalData (ui (mergeChunk cl chunk metas tokens j)) = originalData (ui j)"
  "file' (ui (mergeChunk cl chunk metas tokens j)) = file' (ui j)"
  "isResumable (ui (mergeChunk cl chunk metas tokens j)) = isResumable (ui j)"
  "isLoading (ui (mergeChunk cl chunk metas tokens j)) = isLoading (ui j)"
  "storage (ui (mergeChunk cl chunk metas tokens j)) = storage (ui j)"
  "error (ui (mergeChunk cl chunk metas tokens j)) = error (ui j)"
  "processedDataSet (ui (mergeChunk cl chunk metas tokens j)) = True"
  "renderedResumable (ui (mergeChunk cl chunk metas tokens j)) = renderedResumable (ui j)"
  by (simp_all add: mergeChunk_def Let_def)

lemma awaitCall_fields [simp]:
  "isCancelled (ui (awaitCall env i chunk j)) = (isCancelled (ui j) \<or> snd (env i))"
  "dispatched (awaitCall env i chunk j) = dispatched j @ [chunk]"
  "currentRunResults (awaitCall env i chunk j) = currentRunResults j"
  "totalTokensThisRun (awaitCall env i chunk j) = totalTokensThisRun j"
  "processedData (ui (awaitCall env i chunk j)) = processedData (ui j)"
  "originalData (ui (awaitCall env i chunk j)) = originalData (ui j)"
  "file' (ui (awaitCall env i chunk j)) = file' (ui j)"
  "isResumable (ui (awaitCall env i chunk j)) = isResumable (ui j)"
  "isLoading (ui (awaitCall env i chunk j)) = isLoading (ui j)"
  "error (ui (awaitCall env i chunk j)) = error (ui j)"
  "processedDataSet (ui (awaitCall env i chunk j)) = False"
  "renderedResumable (ui (awaitCall env i chunk j)) = isResumable (ui j)"
  "storage (ui (awaitCall env i chunk j)) = storage (render (ui j))"
  by (simp_all add: awaitCall_def handleStop_def)

text \<open>One turn of the loop, by cases.\<close>

lemma chunkLoop_cancelled:
  "isCancelled (ui j) \<Longrightarrow> chunkLoop cl env i (c # cs) j = (Cancelled, j)"
  by simp

lemma chunkLoop_threw:
  "\<not> isCancelled (ui j) \<Longrightarrow> c \<noteq> [] \<Longrightarrow>
   generateMetaContentForBatch c (fst (env i)) = Inl msg \<Longrightarrow>
   chunkLoop cl env i (c # cs) j = (Threw msg, awaitCall env i c j)"
  by simp

lemma chunkLoop_merged:
  "\<not> isCancelled (ui j) \<Longrightarrow> c \<noteq> [] \<Longrightarrow>
   generateMetaContentForBatch c (fst (env i)) = Inr (metas, tokens) \<Longrightarrow>
   chunkLoop cl env i (c # cs) j
     = chunkLoop cl env (Suc i) cs (mergeChunk cl c metas tokens (awaitCall env i c j))"
  by simp

lemma returns_iff:
  "returns response \<longleftrightarrow>
   generateMetaContentForBatch c response = Inr (batchMetas c response,
     (case response of Items parsedJson totalTokens \<Rightarrow> totalTokens | _ \<Rightarrow> 0))"
  by (cases response) (simp_all add: returns_def generateMetaContentForBatch_def batchMetas_def)

lemma chunkLoop_cases [consumes 0, case_names cancelled skipped threw merged]:
  assumes "isCancelled (ui j) \<Longrightarrow> P"
    and "\<not> isCancelled (ui j) \<Longrightarrow> c = [] \<Longrightarrow> P"
    and "\<And>msg. \<not> isCancelled (ui j) \<Longrightarrow> c \<noteq> [] \<Longrightarrow>
           generateMetaContentForBatch c (fst (env i)) = Inl msg \<Longrightarrow> P"
    and "\<And>metas tokens. \<not> isCancelled (ui j) \<Longrightarrow> c \<noteq> [] \<Longrightarrow>
           generateMetaContentForBatch c (fst (env i)) = Inr (metas, tokens) \<Longrightarrow> P"
  shows P
proof (cases "generateMetaContentForBatch c (fst (env i))")
  case (Inl msg)
  with assms show ?thesis by blast
next
  case (Inr r)
  obtain metas tokens where "r = (metas, tokens)" by (cases r)
  with Inr assms show ?thesis by blast
qed

declare chunkLoop.simps(2) [simp del]

lemma chunkLoop_skipped:
  "\<not> isCancelled (ui j) \<Longrightarrow> chunkLoop cl env i ([] # cs) j = chunkLoop cl env (Suc i) cs j"
  by (simp add: chunkLoop.simps(2))

text \<open>The chunks dispatched are an initial segment of the non-empty chunks.\<close>

lemma chunkLoop_dispatched:
  "\<exists>n. dispatched (snd (chunkLoop cl env i cs j))
        = dispatched j @ take n (filter (\<lambda>c. c \<noteq> []) cs)"
proof (induction cs arbitrary: i j)
  case Nil
  then show ?case by simp
next
  case (Cons c cs)
  show ?case
  proof (cases rule: chunkLoop_cases [where j = j and c = c and env = env and i = i])
    case cancelled
    then show ?thesis by (auto simp: chunkLoop_cancelled intro: exI [of _ 0])
  next
    case skipped
    then show ?thesis using Cons.IH [of "Suc i" j] by (simp add: chunkLoop_skipped)
  next
    case (threw msg)
    then show ?thesis by (auto simp: chunkLoop_threw intro: exI [of _ 1])
  next
    case (merged metas tokens)
    obtain n where "dispatched (snd (chunkLoop cl env (Suc i) cs
                      (mergeChunk cl c metas tokens (awaitCall env i c j))))
            = dispatched (mergeChunk cl c metas tokens (awaitCall env i c j))
              @ take n (filter (\<lambda>c. c \<noteq> []) cs)"
      using Cons.IH by blast
    with merged show ?thesis
      by (auto simp: chunkLoop_merged intro: exI [of _ "Suc n"])
  qed
qed

text \<open>The loop leaves these cells alone.\<close>

lemma chunkLoop_frame:
  "originalData (ui (snd (chunkLoop cl env i cs j))) = originalData (ui j)
   \<and> file' (ui (snd (chunkLoop cl env i cs j))) = file' (ui j)
   \<and> isResumable (ui (snd (chunkLoop cl env i cs j))) = isResumable (ui j)
   \<and> isLoading (ui (snd (chunkLoop cl env i cs j))) = isLoading (ui j)
   \<and> error (ui (snd (chunkLoop cl env i cs j))) = error (ui j)"
proof (induction cs arbitrary: i j)
  case Nil
  then show ?case by simp
next
  case (Cons c cs)
  show ?case
  proof (cases rule: chunkLoop_cases [where j = j and c = c and env = env and i = i])
    case cancelled
    then show ?thesis by (simp add: chunkLoop_cancelled)
  next
    case skipped
    then show ?thesis using Cons.IH [of "Suc i" j] by (simp add: chunkLoop_skipped)
  next
    case (threw msg)
    then show ?thesis by (simp add: chunkLoop_threw)
  next
    case (merged metas tokens)
    then show ?thesis
      using Cons.IH [of "Suc i" "mergeChunk cl c metas tokens (awaitCall env i c j)"]
      by (simp add: chunkLoop_merged)
  qed
qed

section \<open>Cancellation\<close>

lemma chunkLoop_stop:
  assumes "[] \<notin> set cs" and "N < length cs"
    and "\<forall>k<N. returns (fst (env (i + k)))"
    and "isCancelled (ui j) \<or> (\<exists>k<N. snd (env (i + k)))"
    and "\<forall>m<N. \<not> (isCancelled (ui j) \<or> (\<exists>k<m. snd (env (i + k))))"
  shows "fst (chunkLoop cl env i cs j) = Cancelled
       \<and> dispatched (snd (chunkLoop cl env i cs j)) = dispatched j @ take N cs"
  using assms
proof (induction cs arbitrary: N i j)
  case Nil
  then show ?case by simp
next
  case (Cons c cs)
  show ?case
  proof (cases N)
    case 0
    with Cons.prems have "isCancelled (ui j)" by simp
    with 0 show ?thesis by (simp add: chunkLoop_cancelled)
  next
    case (Suc N')
    from Cons.prems(5) Suc have nc: "\<not> isCancelled (ui j)" by auto
    from Cons.prems(1) have ne: "c \<noteq> []" by auto
    from Cons.prems(3) Suc have "returns (fst (env i))" by force
    then have call: "generateMetaContentForBatch c (fst (env i))
        = Inr (batchMetas c (fst (env i)),
               (case fst (env i) of Items parsedJson totalTokens \<Rightarrow> totalTokens | _ \<Rightarrow> 0))"
      using returns_iff by blast
    define j2 where "j2 = mergeChunk cl c (batchMetas c (fst (env i)))
        (case fst (env i) of Items parsedJson totalTokens \<Rightarrow> totalTokens | _ \<Rightarrow> 0)
        (awaitCall env i c j)"
    have step: "chunkLoop cl env i (c # cs) j = chunkLoop cl env (Suc i) cs j2"
      unfolding j2_def by (rule chunkLoop_merged [where env = env and i = i, OF nc ne call])
    have fl: "isCancelled (ui j2) = snd (env i)"
      using nc by (simp add: j2_def)
    have d2: "dispatched j2 = dispatched j @ [c]"
      by (simp add: j2_def)
    have 1: "[] \<notin> set cs" using Cons.prems(1) by auto
    have 2: "N' < length cs" using Cons.prems(2) Suc by simp
    have 3: "\<forall>k<N'. returns (fst (env (Suc i + k)))"
      using Cons.prems(3) Suc by (metis Suc_less_eq add_Suc add_Suc_right)
    have ex_shift: "(\<exists>k<Suc m. snd (env (i + k)))
        \<longleftrightarrow> (snd (env i) \<or> (\<exists>k<m. snd (env (Suc i + k))))" for m
    proof
      assume "\<exists>k<Suc m. snd (env (i + k))"
      then obtain k where k: "k < Suc m" "snd (env (i + k))" by blast
      show "snd (env i) \<or> (\<exists>k<m. snd (env (Suc i + k)))"
      proof (cases k)
        case 0
        with k show ?thesis by simp
      next
        case (Suc k')
        with k have "k' < m" "snd (env (Suc i + k'))" by simp_all
        then show ?thesis by blast
      qed
    next
      assume "snd (env i) \<or> (\<exists>k<m. snd (env (Suc i + k)))"
      then show "\<exists>k<Suc m. snd (env (i + k))"
      proof
        assume "snd (env i)"
        then have "0 < Suc m \<and> snd (env (i + 0))" by simp
        then show ?thesis by blast
      next
        assume "\<exists>k<m. snd (env (Suc i + k))"
        then obtain k where "k < m" "snd (env (Suc i + k))" by blast
        then have "Suc k < Suc m \<and> snd (env (i + Suc k))" by simp
        then show ?thesis by blast
      qed
    qed
    have 4: "isCancelled (ui j2) \<or> (\<exists>k<N'. snd (env (Suc i + k)))"
      using Cons.prems(4) nc Suc ex_shift [of N'] fl by simp
    have 5: "\<forall>m<N'. \<not> (isCancelled (ui j2) \<or> (\<exists>k<m. snd (env (Suc i + k))))"
    proof (intro allI impI)
      fix m assume "m < N'"
      then have "Suc m < N" using Suc by simp
      with Cons.prems(5) have "\<not> (\<exists>k<Suc m. snd (env (i + k)))" by blast
      then show "\<not> (isCancelled (ui j2) \<or> (\<exists>k<m. snd (env (Suc i + k))))"
        using ex_shift [of m] fl by simp
    qed
    from Cons.IH [OF 1 2 3 4 5] show ?thesis
      using step d2 Suc by simp
  qed
qed

text \<open>
  C4. The flag is read when a chunk comes up, before it is handed to the client. When chunk
  \<open>N\<close> is the first to come up with the flag set, the calls for the chunks before it having
  returned, the calls made by the run are those for the first \<open>N\<close> chunks and no other, the
  run settles as stopped with its message, and \<open>isResumable\<close> is true.
\<close>

theorem cancellation_stops_before_chunk:
  assumes "N < length (productChunks productsToProcess)"
    and "flagBefore st env N"
    and "\<forall>k<N. \<not> flagBefore st env k"
    and "\<forall>k<N. returns (fst (env k))"
  shows "calls (runGenerationProcess cl env productsToProcess st)
           = take N (productChunks productsToProcess)
       \<and> settled (runGenerationProcess cl env productsToProcess st) = Stopped
       \<and> isResumable (final (runGenerationProcess cl env productsToProcess st)) = True
       \<and> progressMessage (final (runGenerationProcess cl env productsToProcess st))
           = Some ''Generation stopped. Ready to resume.''"
proof -
  define j0 where "j0 =
     \<lparr>ui = st\<lparr>isLoading := True, error := None, isResumable := False,
               progressMessage := Some (processingMessage (length (processedData cl))
                                          (length (originalData cl)))\<rparr>,
      currentRunResults = [], totalTokensThisRun = 0, dispatched = []\<rparr>"
  have "productChunks [] = []"
    by (simp add: productChunks_def chunksFrom.simps)
  with assms(1) have ne: "productsToProcess \<noteq> []"
    by auto
  have run: "runGenerationProcess cl env productsToProcess st
      = settle cl (chunkLoop cl env 0 (productChunks productsToProcess) j0)"
    unfolding runGenerationProcess_def j0_def Let_def using ne by simp
  have c: "isCancelled (ui j0) = isCancelled st" and d: "dispatched j0 = []"
    by (simp_all add: j0_def)
  have 3: "\<forall>k<N. returns (fst (env (0 + k)))"
    using assms(4) by simp
  have 4: "isCancelled (ui j0) \<or> (\<exists>k<N. snd (env (0 + k)))"
    using assms(2) by (simp add: flagBefore_def c)
  have 5: "\<forall>m<N. \<not> (isCancelled (ui j0) \<or> (\<exists>k<m. snd (env (0 + k))))"
    using assms(3) by (simp add: flagBefore_def c)
  note loop = chunkLoop_stop [where i = 0 and env = env and cl = cl,
      OF productChunks_nonempty assms(1) 3 4 5]
  have f: "fst (chunkLoop cl env 0 (productChunks productsToProcess) j0) = Cancelled"
    using loop by simp
  have s: "dispatched (snd (chunkLoop cl env 0 (productChunks productsToProcess) j0))
      = take N (productChunks productsToProcess)"
    using loop d by simp
  show ?thesis
    unfolding run settle_def Let_def f using s by simp
qed

theorem cancellation_stops_before_chunk_witness:
  "calls (runGenerationProcess initialState (\<lambda>i. (Items [] 10, i = 0)) (exampleRecords 17)
            (initialState\<lparr>originalData := exampleRecords 17\<rparr>))
     = [exampleRecords 15]
   \<and> settled (runGenerationProcess initialState (\<lambda>i. (Items [] 10, i = 0)) (exampleRecords 17)
            (initialState\<lparr>originalData := exampleRecords 17\<rparr>)) = Stopped"
proof -
  have chunks: "productChunks (exampleRecords 17) = [exampleRecords 15, drop 15 (exampleRecords 17)]"
    by code_simp
  have h1: "1 < length (productChunks (exampleRecords 17))"
    unfolding chunks by simp
  have h2: "flagBefore (initialState\<lparr>originalData := exampleRecords 17\<rparr>) (\<lambda>i. (Items [] 10, i = 0)) 1"
    by (simp add: flagBefore_def)
  have h3: "\<forall>k<1. \<not> flagBefore (initialState\<lparr>originalData := exampleRecords 17\<rparr>)
                      (\<lambda>i. (Items [] 10, i = 0)) k"
    by (simp add: flagBefore_def initialState_def)
  have h4: "\<forall>k<1. returns (fst ((\<lambda>i. (Items [] 10, i = 0)) k))"
    by (simp add: returns_def)
  from cancellation_stops_before_chunk [OF h1 h2 h3 h4, of initialState]
  show ?thesis unfolding chunks by simp
qed

section \<open>Runs that complete\<close>

lemma chunkLoop_exhausted:
  assumes "fst (chunkLoop cl env i cs j) = Exhausted" and "[] \<notin> set cs"
  shows "sku ` set (currentRunResults (snd (chunkLoop cl env i cs j)))
           = sku ` set (currentRunResults j) \<union> sku ` set (concat cs)
       \<and> (cs \<noteq> [] \<longrightarrow> (\<exists>prev. processedData (ui (snd (chunkLoop cl env i cs j)))
              = mergeProcessed (originalData cl) prev
                  (currentRunResults (snd (chunkLoop cl env i cs j)))))
       \<and> dispatched (snd (chunkLoop cl env i cs j)) = dispatched j @ cs"
  using assms
proof (induction cs arbitrary: i j)
  case Nil
  then show ?case by simp
next
  case (Cons c cs)
  from Cons.prems(2) have ne: "c \<noteq> []" and rest: "[] \<notin> set cs" by auto
  show ?case
  proof (cases rule: chunkLoop_cases [where j = j and c = c and env = env and i = i])
    case cancelled
    with Cons.prems(1) show ?thesis by (simp add: chunkLoop_cancelled)
  next
    case skipped
    with ne show ?thesis by simp
  next
    case (threw msg)
    with Cons.prems(1) show ?thesis by (simp add: chunkLoop_threw)
  next
    case (merged metas tokens)
    define j2 where "j2 = mergeChunk cl c metas tokens (awaitCall env i c j)"
    have step: "chunkLoop cl env i (c # cs) j = chunkLoop cl env (Suc i) cs j2"
      unfolding j2_def using merged by (simp add: chunkLoop_merged)
    with Cons.prems(1) have ex: "fst (chunkLoop cl env (Suc i) cs j2) = Exhausted" by simp
    note ih = Cons.IH [OF ex rest]
    have k2: "sku ` set (currentRunResults j2) = sku ` set (currentRunResults j) \<union> sku ` set c"
      by (simp add: j2_def image_Un)
    have p2: "processedData (ui j2)
        = mergeProcessed (originalData cl) (processedData (ui j)) (currentRunResults j2)"
      by (simp add: j2_def)
    have d2: "dispatched j2 = dispatched j @ [c]"
      by (simp add: j2_def)
    have keys: "sku ` set (currentRunResults (snd (chunkLoop cl env i (c # cs) j)))
           = sku ` set (currentRunResults j) \<union> sku ` set (concat (c # cs))"
      unfolding step using ih k2 by (simp add: image_Un Un_assoc)
    have merged_form: "\<exists>prev. processedData (ui (snd (chunkLoop cl env i (c # cs) j)))
              = mergeProcessed (originalData cl) prev
                  (currentRunResults (snd (chunkLoop cl env i (c # cs) j)))"
    proof (cases "cs = []")
      case True
      then show ?thesis unfolding step using p2 by auto
    next
      case False
      then show ?thesis unfolding step using ih by blast
    qed
    have disp: "dispatched (snd (chunkLoop cl env i (c # cs) j)) = dispatched j @ c # cs"
      unfolding step using ih d2 by simp
    from keys merged_form disp show ?thesis by blast
  qed
qed

lemma chunkLoop_all_return:
  assumes "\<not> isCancelled (ui j)"
    and "\<forall>k<length cs. returns (fst (env (i + k))) \<and> \<not> snd (env (i + k))"
  shows "fst (chunkLoop cl env i cs j) = Exhausted"
  using assms
proof (induction cs arbitrary: i j)
  case Nil
  then show ?case by simp
next
  case (Cons c cs)
  have rest: "\<forall>k<length cs. returns (fst (env (Suc i + k))) \<and> \<not> snd (env (Suc i + k))"
  proof (intro allI impI)
    fix k assume "k < length cs"
    then have "Suc k < length (c # cs)" by simp
    with Cons.prems(2) have "returns (fst (env (i + Suc k))) \<and> \<not> snd (env (i + Suc k))"
      by blast
    then show "returns (fst (env (Suc i + k))) \<and> \<not> snd (env (Suc i + k))" by simp
  qed
  from Cons.prems(2) have here: "returns (fst (env i))" "\<not> snd (env i)"
    by force+
  show ?case
  proof (cases rule: chunkLoop_cases [where j = j and c = c and env = env and i = i])
    case cancelled
    with Cons.prems(1) show ?thesis by simp
  next
    case skipped
    then show ?thesis using Cons.IH [OF Cons.prems(1) rest] by (simp add: chunkLoop_skipped)
  next
    case (threw msg)
    with here(1) show ?thesis using returns_iff [of "fst (env i)" c] by simp
  next
    case (merged metas tokens)
    have "\<not> isCancelled (ui (mergeChunk cl c metas tokens (awaitCall env i c j)))"
      using Cons.prems(1) here(2) by simp
    from Cons.IH [OF this rest] show ?thesis
      using merged by (simp add: chunkLoop_merged)
  qed
qed

lemma settled_settle:
  "settled (settle cl r) = Completed \<longleftrightarrow> fst r = Exhausted"
  "settled (settle cl r) = Stopped \<longleftrightarrow> fst r = Cancelled"
  "settled (settle cl r) = QuotaExceeded
     \<longleftrightarrow> (\<exists>msg. fst r = Threw msg \<and> str_includes msg ''[QUOTA_EXCEEDED]'')"
  "settled (settle cl r) = Failed
     \<longleftrightarrow> (\<exists>msg. fst r = Threw msg \<and> \<not> str_includes msg ''[QUOTA_EXCEEDED]'')"
  "settled (settle cl r) \<noteq> AllProcessed"
  by (cases "fst r"; simp add: settle_def Let_def)+

lemma settle_frame [simp]:
  "processedData (final (settle cl r)) = processedData (ui (snd r))"
  "originalData (final (settle cl r)) = originalData (ui (snd r))"
  "file' (final (settle cl r)) = file' (ui (snd r))"
  "calls (settle cl r) = dispatched (snd r)"
  "isLoading (final (settle cl r)) = False"
  by (cases "fst r"; simp add: settle_def Let_def)+

text \<open>The job a run over a non-empty list enters the loop with.\<close>

lemma runGenerationProcess_nonempty:
  "productsToProcess \<noteq> [] \<Longrightarrow>
   runGenerationProcess cl env productsToProcess st
     = settle cl (chunkLoop cl env 0 (productChunks productsToProcess)
         \<lparr>ui = st\<lparr>isLoading := True, error := None, isResumable := False,
                   progressMessage := Some (processingMessage (length (processedData cl))
                                              (length (originalData cl)))\<rparr>,
          currentRunResults = [], totalTokensThisRun = 0, dispatched = []\<rparr>)"
  unfolding runGenerationProcess_def Let_def by simp

text \<open>
  C2. A fresh start (\<open>handleGenerate\<close>, which empties \<open>processedData\<close> before the run)
  that settles as completed leaves in \<open>processedData\<close> one record per original record,
  with the keys of \<open>originalData\<close> in the order of \<open>originalData\<close>; so with unique keys every
  key is there exactly once. It called the client for every chunk. A fresh start over a
  non-empty \<open>originalData\<close> does settle as completed when every call returns and Stop is
  never pressed.
\<close>

theorem fresh_run_completes_in_order:
  "(settled (handleGenerate cl env st) = Completed \<longrightarrow>
      map sku (processedData (final (handleGenerate cl env st))) = map sku (originalData cl)
    \<and> length (processedData (final (handleGenerate cl env st))) = length (originalData cl)
    \<and> (distinct (map sku (originalData cl)) \<longrightarrow>
         distinct (map sku (processedData (final (handleGenerate cl env st)))))
    \<and> calls (handleGenerate cl env st) = productChunks (originalData cl))
   \<and> (originalData cl \<noteq> []
       \<and> (\<forall>k < length (productChunks (originalData cl)). returns (fst (env k)) \<and> \<not> snd (env k))
       \<longrightarrow> settled (handleGenerate cl env st) = Completed)"
proof -
  define j0 where "j0 =
     \<lparr>ui = (setProcessedData [] (st\<lparr>isCancelled := False\<rparr>))
              \<lparr>isLoading := True, error := None, isResumable := False,
               progressMessage := Some (processingMessage (length (processedData cl))
                                          (length (originalData cl)))\<rparr>,
      currentRunResults = [], totalTokensThisRun = 0, dispatched = []\<rparr>"
  define r where "r = chunkLoop cl env 0 (productChunks (originalData cl)) j0"
  have run: "handleGenerate cl env st = settle cl r" if "originalData cl \<noteq> []"
    unfolding handleGenerate_def r_def j0_def
    using that runGenerationProcess_nonempty [OF that] by simp
  have j0: "\<not> isCancelled (ui j0)" "currentRunResults j0 = []" "dispatched j0 = []"
    by (simp_all add: j0_def setProcessedData_def)
  have part1:
    "map sku (processedData (final (handleGenerate cl env st))) = map sku (originalData cl)
     \<and> length (processedData (final (handleGenerate cl env st))) = length (originalData cl)
     \<and> (distinct (map sku (originalData cl)) \<longrightarrow>
          distinct (map sku (processedData (final (handleGenerate cl env st)))))
     \<and> calls (handleGenerate cl env st) = productChunks (originalData cl)"
    if compl: "settled (handleGenerate cl env st) = Completed"
  proof -
    have ne: "originalData cl \<noteq> []"
    proof
      assume "originalData cl = []"
      then have "settled (handleGenerate cl env st) = NotStarted"
        by (simp add: handleGenerate_def)
      with compl show False by simp
    qed
    from compl have ex: "fst r = Exhausted"
      unfolding run [OF ne] by (simp add: settled_settle)
    have cne: "productChunks (originalData cl) \<noteq> []"
      using ne by (simp add: productChunks_Nil_iff)
    note l = chunkLoop_exhausted [OF ex [unfolded r_def] productChunks_nonempty]
    from l cne obtain prev where
      pd: "processedData (ui (snd r))
             = mergeProcessed (originalData cl) prev (currentRunResults (snd r))"
      unfolding r_def by blast
    from l have keys: "sku ` set (currentRunResults (snd r)) = sku ` set (originalData cl)"
      unfolding r_def by (simp add: j0 productChunks_concat)
    have "map sku (processedData (ui (snd r))) = map sku (originalData cl)"
      unfolding pd mergeProcessed_skus keys by simp
    then have skus: "map sku (processedData (final (handleGenerate cl env st)))
        = map sku (originalData cl)"
      unfolding run [OF ne] by simp
    then have len: "length (processedData (final (handleGenerate cl env st)))
        = length (originalData cl)"
      using length_map by metis
    have dispatched_all: "calls (handleGenerate cl env st) = productChunks (originalData cl)"
      unfolding run [OF ne] using l by (simp add: r_def j0)
    from skus len dispatched_all show ?thesis by simp
  qed
  have part2: "settled (handleGenerate cl env st) = Completed"
    if a: "originalData cl \<noteq> []
       \<and> (\<forall>k < length (productChunks (originalData cl)). returns (fst (env k)) \<and> \<not> snd (env k))"
  proof -
    from a have "\<forall>k < length (productChunks (originalData cl)).
        returns (fst (env (0 + k))) \<and> \<not> snd (env (0 + k))" by simp
    from chunkLoop_all_return [where i = 0 and env = env, OF j0(1) this]
    have "fst r = Exhausted" unfolding r_def .
    then show ?thesis
      using a run by (simp add: settled_settle)
  qed
  from part1 part2 show ?thesis by blast
qed

theorem fresh_run_completes_in_order_witness:
  "settled (handleGenerate (initialState\<lparr>originalData := [exA, exB], file' := Some ''products.csv''\<rparr>)
      (\<lambda>i. (Items [] 5, False))
      (initialState\<lparr>originalData := [exA, exB], file' := Some ''products.csv''\<rparr>)) = Completed
   \<and> map sku (processedData (final
       (handleGenerate (initialState\<lparr>originalData := [exA, exB], file' := Some ''products.csv''\<rparr>)
          (\<lambda>i. (Items [] 5, False))
          (initialState\<lparr>originalData := [exA, exB], file' := Some ''products.csv''\<rparr>))))
     = [Some ''A'', Some ''B'']"
proof -
  define cl where "cl = initialState\<lparr>originalData := [exA, exB], file' := Some ''products.csv''\<rparr>"
  have o: "originalData cl = [exA, exB]" by (simp add: cl_def)
  have h: "originalData cl \<noteq> []
       \<and> (\<forall>k < length (productChunks (originalData cl)).
             returns (fst ((\<lambda>i. (Items [] 5, False)) k)) \<and> \<not> snd ((\<lambda>i. (Items [] 5, False)) k))"
    by (simp add: o returns_def)
  have k: "sku exA = Some ''A''" "sku exB = Some ''B''" by code_simp+
  note t = fresh_run_completes_in_order [of cl "\<lambda>i. (Items [] 5, False)" cl]
  from t h have c: "settled (handleGenerate cl (\<lambda>i. (Items [] 5, False)) cl) = Completed"
    by blast
  with t have "map sku (processedData (final (handleGenerate cl (\<lambda>i. (Items [] 5, False)) cl)))
      = map sku (originalData cl)" by blast
  with c show ?thesis unfolding o cl_def by (simp add: k)
qed

section \<open>Resuming\<close>

lemma chunkLoop_keys_kept:
  assumes "K \<subseteq> sku ` set (originalData cl)" and "K \<subseteq> sku ` set (processedData (ui j))"
  shows "K \<subseteq> sku ` set (processedData (ui (snd (chunkLoop cl env i cs j))))"
  using assms(2)
proof (induction cs arbitrary: i j)
  case Nil
  then show ?case by simp
next
  case (Cons c cs)
  show ?case
  proof (cases rule: chunkLoop_cases [where j = j and c = c and env = env and i = i])
    case cancelled
    then show ?thesis using Cons.prems by (simp add: chunkLoop_cancelled)
  next
    case skipped
    then show ?thesis using Cons.IH [OF Cons.prems] by (simp add: chunkLoop_skipped)
  next
    case (threw msg)
    then show ?thesis using Cons.prems by (simp add: chunkLoop_threw)
  next
    case (merged metas tokens)
    have "K \<subseteq> sku ` set (processedData (ui (mergeChunk cl c metas tokens (awaitCall env i c j))))"
      using assms(1) Cons.prems by (simp add: mergeProcessed_keys) blast
    from Cons.IH [OF this] show ?thesis
      using merged by (simp add: chunkLoop_merged)
  qed
qed

lemma productChunks_filter: "filter (\<lambda>c. c \<noteq> []) (productChunks ps) = productChunks ps"
  using productChunks_nonempty [of ps] by (simp add: filter_id_conv) metis

lemma runGenerationProcess_calls:
  "\<exists>n. calls (runGenerationProcess cl env ps st) = take n (productChunks ps)"
proof (cases "ps = []")
  case True
  then show ?thesis by (simp add: runGenerationProcess_def)
next
  case False
  define j0 where "j0 =
     \<lparr>ui = st\<lparr>isLoading := True, error := None, isResumable := False,
               progressMessage := Some (processingMessage (length (processedData cl))
                                          (length (originalData cl)))\<rparr>,
      currentRunResults = [], totalTokensThisRun = 0, dispatched = ([] :: product list list)\<rparr>"
  obtain n where "dispatched (snd (chunkLoop cl env 0 (productChunks ps) j0))
      = dispatched j0 @ take n (filter (\<lambda>c. c \<noteq> []) (productChunks ps))"
    using chunkLoop_dispatched by blast
  then have "calls (runGenerationProcess cl env ps st) = take n (productChunks ps)"
    unfolding runGenerationProcess_nonempty [OF False] j0_def [symmetric]
    by (simp add: productChunks_filter j0_def)
  then show ?thesis ..
qed

lemma runGenerationProcess_keys_kept:
  "sku ` set (processedData st) \<inter> sku ` set (originalData cl)
     \<subseteq> sku ` set (processedData (final (runGenerationProcess cl env ps st)))"
proof (cases "ps = []")
  case True
  then show ?thesis by (simp add: runGenerationProcess_def)
next
  case False
  show ?thesis
    unfolding runGenerationProcess_nonempty [OF False]
    by (simp, rule chunkLoop_keys_kept) simp_all
qed

lemma runGenerationProcess_completed_calls:
  assumes "settled (runGenerationProcess cl env ps st) = Completed"
  shows "calls (runGenerationProcess cl env ps st) = productChunks ps"
proof (cases "ps = []")
  case True
  with assms show ?thesis by (simp add: runGenerationProcess_def)
next
  case False
  from assms have "fst (chunkLoop cl env 0 (productChunks ps)
         \<lparr>ui = st\<lparr>isLoading := True, error := None, isResumable := False,
                   progressMessage := Some (processingMessage (length (processedData cl))
                                              (length (originalData cl)))\<rparr>,
          currentRunResults = [], totalTokensThisRun = 0, dispatched = []\<rparr>) = Exhausted"
    unfolding runGenerationProcess_nonempty [OF False] by (simp add: settled_settle)
  from chunkLoop_exhausted [OF this productChunks_nonempty] show ?thesis
    unfolding runGenerationProcess_nonempty [OF False] by simp
qed

text \<open>
  C3. \<open>handleResume\<close> runs over the records of \<open>originalData\<close> whose key is not a key of
  \<open>processedData\<close>, in their order. The chunks it hands to the client are an initial
  segment of the chunks of these records, so the records sent are an initial part of them,
  in order: each is an original record whose key is not yet processed. When the run
  completes, they are all of them. \<open>processedData\<close> is not emptied: the run starts from it,
  and every key of an original record that it held is still a key of it when the run has
  settled.
\<close>

theorem resume_processes_only_remaining:
  "remainingProducts cl
     = filter (\<lambda>p. sku p \<notin> sku ` set (processedData cl)) (originalData cl)
   \<and> handleResume cl env st
     = runGenerationProcess cl env (remainingProducts cl) (st\<lparr>isCancelled := False\<rparr>)
   \<and> processedData (st\<lparr>isCancelled := False\<rparr>) = processedData st
   \<and> (\<exists>n. calls (handleResume cl env st) = take n (productChunks (remainingProducts cl)))
   \<and> (\<exists>rest. remainingProducts cl = concat (calls (handleResume cl env st)) @ rest)
   \<and> list_all (\<lambda>p. p \<in> set (originalData cl) \<and> sku p \<notin> sku ` set (processedData cl))
        (concat (calls (handleResume cl env st)))
   \<and> (settled (handleResume cl env st) = Completed \<longrightarrow>
        concat (calls (handleResume cl env st)) = remainingProducts cl)
   \<and> sku ` set (processedData st) \<inter> sku ` set (originalData cl)
        \<subseteq> sku ` set (processedData (final (handleResume cl env st)))"
proof -
  have rem: "remainingProducts cl
     = filter (\<lambda>p. sku p \<notin> sku ` set (processedData cl)) (originalData cl)"
    by (simp add: remainingProducts_def)
  have res: "handleResume cl env st
     = runGenerationProcess cl env (remainingProducts cl) (st\<lparr>isCancelled := False\<rparr>)"
    by (simp add: handleResume_def)
  obtain n where n: "calls (handleResume cl env st) = take n (productChunks (remainingProducts cl))"
    unfolding res using runGenerationProcess_calls by blast
  have "concat (take n (productChunks (remainingProducts cl)))
          @ concat (drop n (productChunks (remainingProducts cl))) = remainingProducts cl"
    by (metis append_take_drop_id concat_append productChunks_concat)
  then have pre: "remainingProducts cl = concat (calls (handleResume cl env st))
      @ concat (drop n (productChunks (remainingProducts cl)))"
    unfolding n by simp
  have "set (concat (calls (handleResume cl env st))) \<subseteq> set (remainingProducts cl)"
    using pre by (metis set_append sup_ge1)
  then have sent: "list_all (\<lambda>p. p \<in> set (originalData cl) \<and> sku p \<notin> sku ` set (processedData cl))
        (concat (calls (handleResume cl env st)))"
    unfolding rem list_all_iff by auto
  have compl: "concat (calls (handleResume cl env st)) = remainingProducts cl"
    if "settled (handleResume cl env st) = Completed"
    using runGenerationProcess_completed_calls [OF that [unfolded res]]
    unfolding res by (simp add: productChunks_concat)
  have kept: "sku ` set (processedData st) \<inter> sku ` set (originalData cl)
        \<subseteq> sku ` set (processedData (final (handleResume cl env st)))"
    unfolding res
    using runGenerationProcess_keys_kept [of "st\<lparr>isCancelled := False\<rparr>" cl env "remainingProducts cl"]
    by simp
  from rem res n pre sent compl kept show ?thesis by auto
qed

theorem resume_processes_only_remaining_witness:
  "settled (handleResume
      (initialState\<lparr>originalData := [exA, exB, exC, exD],
                    processedData := [withMeta ''T'' ''D'' exA, withMeta ''T2'' ''D2'' exB],
                    isResumable := True\<rparr>)
      (\<lambda>i. (Items [] 3, False))
      (initialState\<lparr>originalData := [exA, exB, exC, exD],
                    processedData := [withMeta ''T'' ''D'' exA, withMeta ''T2'' ''D2'' exB],
                    isResumable := True\<rparr>)) = Completed
   \<and> concat (calls (handleResume
      (initialState\<lparr>originalData := [exA, exB, exC, exD],
                    processedData := [withMeta ''T'' ''D'' exA, withMeta ''T2'' ''D2'' exB],
                    isResumable := True\<rparr>)
      (\<lambda>i. (Items [] 3, False))
      (initialState\<lparr>originalData := [exA, exB, exC, exD],
                    processedData := [withMeta ''T'' ''D'' exA, withMeta ''T2'' ''D2'' exB],
                    isResumable := True\<rparr>))) = [exC, exD]"
proof -
  define cl where "cl = initialState\<lparr>originalData := [exA, exB, exC, exD],
                    processedData := [withMeta ''T'' ''D'' exA, withMeta ''T2'' ''D2'' exB],
                    isResumable := True\<rparr>"
  have rem: "remainingProducts cl = [exC, exD]"
    unfolding cl_def by code_simp
  have h: "settled (handleResume cl (\<lambda>i. (Items [] 3, False)) cl) = Completed"
    unfolding cl_def by code_simp
  from resume_processes_only_remaining [of cl "\<lambda>i. (Items [] 3, False)" cl] h
  have "concat (calls (handleResume cl (\<lambda>i. (Items [] 3, False)) cl)) = remainingProducts cl"
    by blast
  with h rem show ?thesis unfolding cl_def [symmetric] by simp
qed

section \<open>Runs cut short by the quota\<close>

lemma js_Map_distinct:
  assumes "distinct (map sku xs)" and "i < length xs"
  shows "js_Map (map (\<lambda>p. (sku p, p)) xs) (sku (xs ! i)) = Some (xs ! i)"
proof -
  have "distinct (map fst (rev (map (\<lambda>p. (sku p, p)) xs)))"
    using assms(1) by (simp add: rev_map [symmetric] comp_def)
  moreover have "(sku (xs ! i), xs ! i) \<in> set (rev (map (\<lambda>p. (sku p, p)) xs))"
    using assms(2) by auto
  ultimately show ?thesis
    unfolding js_Map_def by (rule map_of_is_SomeI)
qed

lemma map_filter_append:
  "List.map_filter f (xs @ ys) = List.map_filter f xs @ List.map_filter f ys"
  by (simp add: List.map_filter_def)

lemma map_filter_none: "(\<forall>x\<in>set xs. f x = None) \<Longrightarrow> List.map_filter f xs = []"
  by (induction xs) auto

lemma map_filter_nth:
  assumes "length xs = length ys" and "\<forall>i<length xs. f (xs ! i) = Some (ys ! i)"
  shows "List.map_filter f xs = ys"
  using assms
proof (induction xs ys rule: list_induct2)
  case Nil
  then show ?case by simp
next
  case (Cons x xs y ys)
  from Cons.prems have "f x = Some y" by force
  moreover have "\<forall>i<length xs. f (xs ! i) = Some (ys ! i)"
    using Cons.prems by force
  ultimately show ?case using Cons.IH by simp
qed

text \<open>With unique keys, merging results that cover an initial part of the original records,
  over previous data whose keys they cover, gives those results.\<close>

lemma mergeProcessed_fresh:
  assumes dist: "distinct (map sku (pre @ rest))"
    and keys: "map sku crr = map sku pre"
    and prev: "sku ` set prev \<subseteq> sku ` set crr"
  shows "mergeProcessed (pre @ rest) prev crr = crr"
proof -
  define m where "m = js_Map (map (\<lambda>p. (sku p, p)) prev) ++ js_Map (map (\<lambda>p. (sku p, p)) crr)"
  have len: "length pre = length crr"
    using keys by (metis length_map)
  have dcrr: "distinct (map sku crr)"
    using dist keys by simp
  have on_pre: "m (sku (pre ! i)) = Some (crr ! i)" if "i < length pre" for i
  proof -
    from that len have i: "i < length crr" by simp
    have "sku (pre ! i) = sku (crr ! i)"
      using keys that i by (metis nth_map)
    then show ?thesis
      unfolding m_def using js_Map_distinct [OF dcrr i] by (simp add: map_add_def)
  qed
  have on_rest: "m (sku x) = None" if "x \<in> set rest" for x
  proof -
    from dist that have "sku x \<notin> sku ` set pre" by auto
    moreover have "sku ` set crr = sku ` set pre"
      using keys by (metis set_map)
    ultimately have "sku x \<notin> sku ` set prev \<union> sku ` set crr"
      using prev by auto
    then show ?thesis
      unfolding m_def using newDataMap_None by blast
  qed
  have "List.map_filter (\<lambda>og. m (sku og)) pre = crr"
    using len on_pre by (intro map_filter_nth) simp_all
  moreover have "List.map_filter (\<lambda>og. m (sku og)) rest = []"
    using on_rest by (intro map_filter_none) simp
  ultimately show ?thesis
    by (simp add: mergeProcessed_def m_def [symmetric] map_filter_append)
qed

lemma chunksFrom_full:
  "Suc k < length (chunksFrom m ps) \<Longrightarrow> length (chunksFrom m ps ! k) = BATCH_SIZE"
proof (induction m ps arbitrary: k rule: chunksFrom.induct)
  case (1 i ps)
  from "1.prems" have lt: "i < length ps"
    by (subst (asm) chunksFrom.simps) (simp split: if_splits)
  then have unfold: "chunksFrom i ps = take BATCH_SIZE (drop i ps) # chunksFrom (i + BATCH_SIZE) ps"
    by (subst chunksFrom.simps) simp
  show ?case
  proof (cases k)
    case 0
    with "1.prems" unfold have "chunksFrom (i + BATCH_SIZE) ps \<noteq> []" by auto
    then have "i + BATCH_SIZE < length ps"
      by (subst (asm) chunksFrom.simps) (simp split: if_splits)
    with 0 show ?thesis unfolding unfold by simp
  next
    case (Suc k')
    with "1.prems" unfold have "Suc k' < length (chunksFrom (i + BATCH_SIZE) ps)" by simp
    from "1.IH" [OF lt this] Suc show ?thesis unfolding unfold by simp
  qed
qed

lemma resultsOfChunks_length:
  "N < length (productChunks ps) \<Longrightarrow>
   length (resultsOfChunks env (productChunks ps) N) = BATCH_SIZE * N"
proof (induction N)
  case 0
  then show ?case by (simp add: resultsOfChunks_def)
next
  case (Suc N)
  then have "length (productChunks ps ! N) = BATCH_SIZE"
    unfolding productChunks_def by (intro chunksFrom_full) simp
  with Suc show ?case by (simp add: resultsOfChunks_def)
qed

lemma storage_save:
  "file' cl = Some name \<Longrightarrow> originalData cl \<noteq> [] \<Longrightarrow>
   storage (saveCurrentStateToSession cl b st) = Some (snapshot name cl b)"
  by (simp add: saveCurrentStateToSession_def snapshot_def)

lemma storage_render_fires:
  assumes "processedDataSet st \<or> isResumable st \<noteq> renderedResumable st"
    and "file' st = Some name" and "originalData st \<noteq> []"
    and "processedData st \<noteq> []" and "storage st \<noteq> None"
  shows "storage (render st) = Some (snapshot name st (isResumable st))"
  using assms by (auto simp: render_def syncEffect_def storage_save)

lemma settle_quota:
  assumes "fst r = Threw msg" and "str_includes msg ''[QUOTA_EXCEEDED]''"
  shows "final (settle cl r)
       = render ((saveCurrentStateToSession cl True
                   ((ui (snd r))\<lparr>error := Some (quotaMessage
                        (length (processedData cl) + length (currentRunResults (snd r)))
                        (length (originalData cl))),
                      isResumable := True\<rparr>))
                 \<lparr>progressMessage := None, isLoading := False\<rparr>)"
  using assms by (simp add: settle_def Let_def)

text \<open>Looking a key of an original record up in the merged data gives what the merging map
  held for it.\<close>

lemma map_of_unique_value:
  assumes "(k, v) \<in> set xs" and "\<forall>v'. (k, v') \<in> set xs \<longrightarrow> v' = v"
  shows "map_of xs k = Some v"
proof -
  from assms(1) obtain v' where v': "map_of xs k = Some v'"
    using weak_map_of_SomeI by fastforce
  then have "(k, v') \<in> set xs" by (rule map_of_SomeD)
  with assms(2) v' show ?thesis by simp
qed

lemma js_Map_of_merged:
  assumes keyed: "\<forall>k p. m k = Some p \<longrightarrow> sku p = k"
    and "og \<in> set orig"
  shows "js_Map (map (\<lambda>p. (sku p, p)) (List.map_filter (\<lambda>og. m (sku og)) orig)) (sku og)
       = m (sku og)"
proof (cases "m (sku og)")
  case None
  have "sku og \<notin> sku ` set (List.map_filter (\<lambda>og. m (sku og)) orig)"
  proof
    assume "sku og \<in> sku ` set (List.map_filter (\<lambda>og. m (sku og)) orig)"
    then obtain p where p: "p \<in> set (List.map_filter (\<lambda>og. m (sku og)) orig)" "sku p = sku og"
      by auto
    then obtain og' where "og' \<in> set orig" "m (sku og') = Some p"
      by (auto simp: List.map_filter_def)
    with keyed p have "m (sku og) = Some p" by metis
    with None show False by simp
  qed
  with None show ?thesis by (simp add: js_Map_None)
next
  case (Some p)
  with keyed have kp: "sku p = sku og" by blast
  have mem: "p \<in> set (List.map_filter (\<lambda>og. m (sku og)) orig)"
    using assms(2) Some by (force simp: List.map_filter_def)
  have uniq: "q = p" if "q \<in> set (List.map_filter (\<lambda>og. m (sku og)) orig)" "sku q = sku og" for q
  proof -
    from that(1) obtain og' where "og' \<in> set orig" "m (sku og') = Some q"
      by (auto simp: List.map_filter_def)
    with keyed that(2) have "m (sku og) = Some q" by metis
    with Some show ?thesis by simp
  qed
  have "map_of (rev (map (\<lambda>p. (sku p, p)) (List.map_filter (\<lambda>og. m (sku og)) orig))) (sku og)
      = Some p"
  proof (rule map_of_unique_value)
    have "(sku p, p) \<in> set (rev (map (\<lambda>p. (sku p, p)) (List.map_filter (\<lambda>og. m (sku og)) orig)))"
      using mem by simp
    then show "(sku og, p) \<in> set (rev (map (\<lambda>p. (sku p, p)) (List.map_filter (\<lambda>og. m (sku og)) orig)))"
      unfolding kp .
    show "\<forall>v'. (sku og, v') \<in> set (rev (map (\<lambda>p. (sku p, p))
                  (List.map_filter (\<lambda>og. m (sku og)) orig))) \<longrightarrow> v' = p"
      using uniq by auto
  qed
  with Some show ?thesis by (simp add: js_Map_def)
qed

lemma js_Map_append:
  "js_Map (map f (xs @ ys)) = js_Map (map f xs) ++ js_Map (map f ys)"
  by (simp add: js_Map_def)

lemma map_filter_cong_set:
  "(\<And>x. x \<in> set xs \<Longrightarrow> f x = g x) \<Longrightarrow> List.map_filter f xs = List.map_filter g xs"
proof (induction xs)
  case Nil
  then show ?case by simp
next
  case (Cons a xs)
  then have "f a = g a" and "List.map_filter f xs = List.map_filter g xs"
    by simp_all
  then show ?case by (cases "g a") simp_all
qed

text \<open>Merging over the outcome of an earlier merge of a shorter list of results is merging
  over the data that merge started from.\<close>

lemma mergeProcessed_again:
  "mergeProcessed orig (mergeProcessed orig prev crr) (crr @ new)
   = mergeProcessed orig prev (crr @ new)"
proof -
  define m where "m = js_Map (map (\<lambda>p. (sku p, p)) prev) ++ js_Map (map (\<lambda>p. (sku p, p)) crr)"
  define n where "n = js_Map (map (\<lambda>p. (sku p, p)) new)"
  have keyed: "\<forall>k p. m k = Some p \<longrightarrow> sku p = k"
    unfolding m_def by (auto simp: map_add_Some_iff dest: js_Map_key)
  have merged: "mergeProcessed orig prev crr = List.map_filter (\<lambda>og. m (sku og)) orig"
    by (simp add: mergeProcessed_def m_def)
  have "(js_Map (map (\<lambda>p. (sku p, p)) (mergeProcessed orig prev crr))
           ++ js_Map (map (\<lambda>p. (sku p, p)) (crr @ new))) (sku og)
      = (js_Map (map (\<lambda>p. (sku p, p)) prev) ++ js_Map (map (\<lambda>p. (sku p, p)) (crr @ new))) (sku og)"
    if "og \<in> set orig" for og
  proof -
    have look: "js_Map (map (\<lambda>p. (sku p, p)) (mergeProcessed orig prev crr)) (sku og) = m (sku og)"
      unfolding merged by (rule js_Map_of_merged [OF keyed that])
    show ?thesis
      unfolding js_Map_append
      using look by (simp add: map_add_def m_def split: option.splits)
  qed
  then show ?thesis
    unfolding mergeProcessed_def Let_def by (intro map_filter_cong_set) simp
qed

lemma resultsOfChunks_Suc:
  "resultsOfChunks env chunks (Suc N)
   = resultsOfChunks env chunks N
     @ processedChunk (chunks ! N) (batchMetas (chunks ! N) (fst (env N)))"
  by (simp add: resultsOfChunks_def)

lemma resultsOfChunks_skus:
  "N \<le> length chunks \<Longrightarrow>
   map sku (resultsOfChunks env chunks N) = map sku (concat (take N chunks))"
proof (induction N)
  case 0
  then show ?case by (simp add: resultsOfChunks_def)
next
  case (Suc N)
  then show ?case
    by (simp add: resultsOfChunks_Suc take_Suc_conv_app_nth)
qed

text \<open>The state after the first \<open>N\<close> chunks of a run, all merged: \<open>processedData\<close> is the
  merge of the results so far over the data the run started with (\<open>prev\<close>).\<close>

lemma chunkLoop_merged_prefix:
  assumes "processedData (ui j) = mergeProcessed (originalData cl) prev (currentRunResults j)
           \<or> (currentRunResults j = [] \<and> processedData (ui j) = prev)"
    and "\<not> isCancelled (ui j)"
    and "[] \<notin> set cs"
    and "N \<le> length cs"
    and "\<forall>k<N. returns (fst (env (i + k))) \<and> \<not> snd (env (i + k))"
  shows "\<exists>jN. chunkLoop cl env i cs j = chunkLoop cl env (i + N) (drop N cs) jN
       \<and> \<not> isCancelled (ui jN)
       \<and> (N = 0 \<longrightarrow> jN = j)
       \<and> (0 < N \<longrightarrow> processedData (ui jN)
                       = mergeProcessed (originalData cl) prev (currentRunResults jN))
       \<and> currentRunResults jN
           = currentRunResults j
             @ concat (map (\<lambda>k. processedChunk (cs ! k) (batchMetas (cs ! k) (fst (env (i + k)))))
                         [0..<N])
       \<and> dispatched jN = dispatched j @ take N cs"
  using assms
proof (induction N arbitrary: cs i j)
  case 0
  then show ?case by (intro exI [of _ j]) simp
next
  case (Suc N)
  from Suc.prems(4) obtain c cs' where cs: "cs = c # cs'" by (cases cs) auto
  from Suc.prems(3) cs have ne: "c \<noteq> []" and rest: "[] \<notin> set cs'" by auto
  from Suc.prems(5) have here: "returns (fst (env i))" "\<not> snd (env i)" by force+
  define tokens where
    "tokens = (case fst (env i) of Items parsedJson totalTokens \<Rightarrow> totalTokens | _ \<Rightarrow> 0)"
  define j2 where "j2 = mergeChunk cl c (batchMetas c (fst (env i))) tokens (awaitCall env i c j)"
  have call: "generateMetaContentForBatch c (fst (env i)) = Inr (batchMetas c (fst (env i)), tokens)"
    unfolding tokens_def using here(1) returns_iff by blast
  have step: "chunkLoop cl env i cs j = chunkLoop cl env (Suc i) cs' j2"
    unfolding cs j2_def
    by (rule chunkLoop_merged [where env = env and i = i, OF Suc.prems(2) ne call])
  have crr2: "currentRunResults j2
      = currentRunResults j @ processedChunk c (batchMetas c (fst (env i)))"
    by (simp add: j2_def)
  have pd2: "processedData (ui j2) = mergeProcessed (originalData cl) prev (currentRunResults j2)"
  proof -
    have "processedData (ui j2)
        = mergeProcessed (originalData cl) (processedData (ui j)) (currentRunResults j2)"
      by (simp add: j2_def)
    also have "\<dots> = mergeProcessed (originalData cl) prev (currentRunResults j2)"
      using Suc.prems(1)
    proof
      assume "processedData (ui j) = mergeProcessed (originalData cl) prev (currentRunResults j)"
      then show ?thesis unfolding crr2 by (simp add: mergeProcessed_again)
    next
      assume "currentRunResults j = [] \<and> processedData (ui j) = prev"
      then show ?thesis by simp
    qed
    finally show ?thesis .
  qed
  have nc2: "\<not> isCancelled (ui j2)"
    using Suc.prems(2) here(2) by (simp add: j2_def)
  have len2: "N \<le> length cs'" using Suc.prems(4) cs by simp
  have ok2: "\<forall>k<N. returns (fst (env (Suc i + k))) \<and> \<not> snd (env (Suc i + k))"
  proof (intro allI impI)
    fix k assume "k < N"
    then have "Suc k < Suc N" by simp
    with Suc.prems(5) have "returns (fst (env (i + Suc k))) \<and> \<not> snd (env (i + Suc k))"
      by blast
    then show "returns (fst (env (Suc i + k))) \<and> \<not> snd (env (Suc i + k))" by simp
  qed
  from Suc.IH [OF disjI1 [OF pd2] nc2 rest len2 ok2]
  obtain jN where jN: "chunkLoop cl env (Suc i) cs' j2 = chunkLoop cl env (Suc i + N) (drop N cs') jN"
      "\<not> isCancelled (ui jN)" "N = 0 \<longrightarrow> jN = j2"
      "0 < N \<longrightarrow> processedData (ui jN)
                    = mergeProcessed (originalData cl) prev (currentRunResults jN)"
      "currentRunResults jN = currentRunResults j2
         @ concat (map (\<lambda>k. processedChunk (cs' ! k) (batchMetas (cs' ! k) (fst (env (Suc i + k)))))
                     [0..<N])"
      "dispatched jN = dispatched j2 @ take N cs'"
    by blast
  have pdN: "processedData (ui jN) = mergeProcessed (originalData cl) prev (currentRunResults jN)"
    using jN(3,4) pd2 by (cases N) auto
  have results: "currentRunResults jN = currentRunResults j
      @ concat (map (\<lambda>k. processedChunk (cs ! k) (batchMetas (cs ! k) (fst (env (i + k)))))
                  [0..<Suc N])"
    unfolding jN(5) crr2 cs map_upt_Suc by simp
  have disp: "dispatched jN = dispatched j @ take (Suc N) cs"
    unfolding jN(6) cs by (simp add: j2_def)
  have "chunkLoop cl env i cs j = chunkLoop cl env (i + Suc N) (drop (Suc N) cs) jN"
    using step jN(1) by (simp add: cs)
  with jN(2) pdN results disp show ?case by blast
qed

text \<open>
  C1, as the code has it. A run started with the cancellation flag clear (as Generate and
  Resume start it) over records of \<open>originalData\<close>, with a file loaded, in which the calls
  for the first \<open>N\<close> chunks (\<open>N\<close> at least one) return with Stop not pressed and the call
  for the next chunk fails with an error the client classifies as quota exhaustion: the run
  settles as quota-exceeded after \<open>N + 1\<close> calls, \<open>isResumable\<close> is true, the stored
  session is the snapshot of the resulting state marked resumable, and the error shown
  reports the number of rows the closure saw processed plus \<open>15 * N\<close>, of the number of
  original records. \<open>processedData\<close> is \<open>originalData\<close> looked up by key in the rows
  processed before the run overridden by the results of the \<open>N\<close> chunks: one row for every
  original record whose key is among those, in the original order. When the keys of
  \<open>originalData\<close> are unique and the run is a fresh start over all of it, that is
  exactly the results of the \<open>N\<close> chunks, \<open>15 * N\<close> rows.
\<close>

theorem quota_after_chunks_keeps_partial_results:
  assumes "file' cl = Some name" and "file' st = Some name"
    and "originalData st = originalData cl" and "\<not> isCancelled st"
    and "set ps \<subseteq> set (originalData cl)"
    and "0 < N" and "N < length (productChunks ps)"
    and "\<forall>k<N. returns (fst (env k)) \<and> \<not> snd (env k)"
    and "fst (env N) = Throws e" and "fst (classify e)"
  shows "settled (runGenerationProcess cl env ps st) = QuotaExceeded
       \<and> calls (runGenerationProcess cl env ps st) = take (Suc N) (productChunks ps)
       \<and> processedData (final (runGenerationProcess cl env ps st))
           = mergeProcessed (originalData cl) (processedData st)
               (resultsOfChunks env (productChunks ps) N)
       \<and> map sku (processedData (final (runGenerationProcess cl env ps st)))
           = filter (\<lambda>k. k \<in> sku ` set (processedData st)
                            \<union> sku ` set (concat (take N (productChunks ps))))
               (map sku (originalData cl))
       \<and> isResumable (final (runGenerationProcess cl env ps st)) = True
       \<and> storage (final (runGenerationProcess cl env ps st))
           = Some (snapshot name (final (runGenerationProcess cl env ps st)) True)
       \<and> error (final (runGenerationProcess cl env ps st))
           = Some (quotaMessage (length (processedData cl) + BATCH_SIZE * N)
                     (length (originalData cl)))
       \<and> (distinct (map sku (originalData cl)) \<and> ps = originalData cl \<and> processedData st = []
            \<longrightarrow> processedData (final (runGenerationProcess cl env ps st))
                  = resultsOfChunks env (productChunks ps) N
                \<and> length (processedData (final (runGenerationProcess cl env ps st)))
                  = BATCH_SIZE * N)"
proof -
  define chunks where "chunks = productChunks ps"
  define j0 where "j0 = startJob cl st"
  define r where "r = chunkLoop cl env 0 chunks j0"
  define crr where "crr = resultsOfChunks env chunks N"
  have "productChunks [] = []"
    by (simp add: productChunks_def chunksFrom.simps)
  with assms(7) have psne: "ps \<noteq> []" by auto
  with assms(5) have ne: "originalData cl \<noteq> []" by auto
  have run: "runGenerationProcess cl env ps st = settle cl r"
    unfolding r_def j0_def chunks_def startJob_def
    by (rule runGenerationProcess_nonempty [OF psne])
  have j0: "\<not> isCancelled (ui j0)" "currentRunResults j0 = []" "dispatched j0 = []"
    "processedData (ui j0) = processedData st" "file' (ui j0) = Some name"
    "originalData (ui j0) = originalData cl" "isResumable (ui j0) = False"
    using assms(2,3,4) by (simp_all add: j0_def startJob_def)
  have start: "processedData (ui j0)
        = mergeProcessed (originalData cl) (processedData st) (currentRunResults j0)
      \<or> (currentRunResults j0 = [] \<and> processedData (ui j0) = processedData st)"
    by (simp add: j0)
  have ok: "\<forall>k<N. returns (fst (env (0 + k))) \<and> \<not> snd (env (0 + k))"
    using assms(8) by simp
  have p3: "[] \<notin> set chunks" and p4: "N \<le> length chunks"
    using assms(7) by (simp_all add: chunks_def productChunks_nonempty)
  have "\<exists>jN. chunkLoop cl env 0 chunks j0 = chunkLoop cl env (0 + N) (drop N chunks) jN
       \<and> \<not> isCancelled (ui jN)
       \<and> (N = 0 \<longrightarrow> jN = j0)
       \<and> (0 < N \<longrightarrow> processedData (ui jN)
                       = mergeProcessed (originalData cl) (processedData st)
                           (currentRunResults jN))
       \<and> currentRunResults jN
           = currentRunResults j0
             @ concat (map (\<lambda>k. processedChunk (chunks ! k)
                                  (batchMetas (chunks ! k) (fst (env (0 + k))))) [0..<N])
       \<and> dispatched jN = dispatched j0 @ take N chunks"
    by (rule chunkLoop_merged_prefix [where cl = cl and prev = "processedData st"
          and cs = chunks and j = j0 and N = N and env = env and i = 0,
          OF start j0(1) p3 p4 ok])
  then obtain jN where jN: "r = chunkLoop cl env N (drop N chunks) jN"
      "\<not> isCancelled (ui jN)"
      "processedData (ui jN) = mergeProcessed (originalData cl) (processedData st) crr"
      "currentRunResults jN = crr" "dispatched jN = take N chunks"
    unfolding r_def crr_def resultsOfChunks_def using assms(6) by (auto simp: j0)
  define c where "c = chunks ! N"
  have dropN: "drop N chunks = c # drop (Suc N) chunks"
    unfolding c_def using assms(7) by (simp add: chunks_def Cons_nth_drop_Suc)
  have cne: "c \<noteq> []"
    unfolding c_def using assms(7) productChunks_nonempty [of ps]
    by (metis chunks_def nth_mem)
  define msg where "msg = rethrow ''Failed to generate meta content for a batch of products. '' e"
  have call: "generateMetaContentForBatch c (fst (env N)) = Inl msg"
    unfolding msg_def using assms(9) by (simp add: generateMetaContentForBatch_def)
  have marker: "str_includes msg ''[QUOTA_EXCEEDED]''"
    unfolding msg_def using assms(10) by (rule rethrow_quota)
  have r: "r = (Threw msg, awaitCall env N c jN)"
    unfolding jN(1) dropN
    by (rule chunkLoop_threw [where env = env and i = N, OF jN(2) cne call])
  note frame = chunkLoop_frame [of cl env 0 chunks j0, folded r_def]
  define sT where "sT = ui (snd r)"
  have sT: "file' sT = Some name" "originalData sT = originalData cl" "isResumable sT = False"
    "processedData sT = mergeProcessed (originalData cl) (processedData st) crr"
    "renderedResumable sT = False" "processedDataSet sT = False"
    using frame j0 jN(3) unfolding sT_def by (simp_all add: r)
  have crr_skus: "map sku crr = map sku (concat (take N chunks))"
    unfolding crr_def using p4 by (rule resultsOfChunks_skus)
  then have crr_keys: "sku ` set crr = sku ` set (concat (take N chunks))"
    by (metis set_map)
  have len: "length crr = BATCH_SIZE * N"
    unfolding crr_def chunks_def using assms(7) by (rule resultsOfChunks_length)
  have pne: "processedData sT \<noteq> []"
  proof -
    from p3 p4 assms(6) have "chunks ! 0 \<noteq> []" by (metis nth_mem less_le_trans)
    then obtain x where x: "x \<in> set (chunks ! 0)" by (cases "chunks ! 0") auto
    from p4 assms(6) have in_take: "chunks ! 0 \<in> set (take N chunks)"
      by (metis in_set_conv_nth length_take min.absorb2 nth_take less_le_trans)
    then have "x \<in> set (concat (take N chunks))" using x by auto
    moreover have "set (concat (take N chunks)) \<subseteq> set (concat chunks)"
      by (auto dest: in_set_takeD)
    ultimately have "x \<in> set ps" "sku x \<in> sku ` set crr"
      unfolding crr_keys by (auto simp: chunks_def productChunks_concat)
    with assms(5) have "sku x \<in> sku ` set (processedData sT)"
      unfolding sT(4) mergeProcessed_keys by auto
    then show ?thesis by auto
  qed
  have crrT: "currentRunResults (snd r) = crr"
    by (simp add: r jN(4))
  define s2 where "s2 = (saveCurrentStateToSession cl True
                   (sT\<lparr>error := Some (quotaMessage
                        (length (processedData cl) + length (currentRunResults (snd r)))
                        (length (originalData cl))),
                      isResumable := True\<rparr>))
                 \<lparr>progressMessage := None, isLoading := False\<rparr>"
  have fin: "final (runGenerationProcess cl env ps st) = render s2"
    unfolding run s2_def sT_def
    by (rule settle_quota [OF _ marker]) (simp add: r)
  have s2: "file' s2 = Some name" "originalData s2 = originalData cl" "isResumable s2 = True"
    "processedData s2 = mergeProcessed (originalData cl) (processedData st) crr"
    "renderedResumable s2 = False"
    "error s2 = Some (quotaMessage (length (processedData cl) + BATCH_SIZE * N)
                        (length (originalData cl)))"
    using sT by (simp_all add: s2_def crrT len)
  have st2: "storage s2 \<noteq> None"
    using storage_save [OF assms(1) ne] by (simp add: s2_def)
  have "storage (render s2) = Some (snapshot name s2 (isResumable s2))"
    using s2 pne [unfolded sT(4)] ne st2 by (intro storage_render_fires) simp_all
  then have c6: "storage (final (runGenerationProcess cl env ps st))
      = Some (snapshot name (final (runGenerationProcess cl env ps st)) True)"
    unfolding fin by (simp add: snapshot_def s2)
  have c1: "settled (runGenerationProcess cl env ps st) = QuotaExceeded"
    unfolding run using marker by (auto simp: settled_settle r)
  have c2: "calls (runGenerationProcess cl env ps st) = take (Suc N) (productChunks ps)"
    unfolding run using assms(7)
    by (simp add: r jN(5) c_def chunks_def take_Suc_conv_app_nth)
  have c3: "processedData (final (runGenerationProcess cl env ps st))
      = mergeProcessed (originalData cl) (processedData st)
          (resultsOfChunks env (productChunks ps) N)"
    unfolding fin by (simp add: s2 crr_def chunks_def)
  have c4: "map sku (processedData (final (runGenerationProcess cl env ps st)))
      = filter (\<lambda>k. k \<in> sku ` set (processedData st)
                       \<union> sku ` set (concat (take N (productChunks ps))))
          (map sku (originalData cl))"
    unfolding c3 mergeProcessed_skus
    using crr_keys by (simp add: crr_def chunks_def)
  have c5: "isResumable (final (runGenerationProcess cl env ps st)) = True"
    unfolding fin by (simp add: s2)
  have c7: "error (final (runGenerationProcess cl env ps st))
      = Some (quotaMessage (length (processedData cl) + BATCH_SIZE * N)
                (length (originalData cl)))"
    unfolding fin by (simp add: s2)
  have c8: "processedData (final (runGenerationProcess cl env ps st))
        = resultsOfChunks env (productChunks ps) N
      \<and> length (processedData (final (runGenerationProcess cl env ps st))) = BATCH_SIZE * N"
    if "distinct (map sku (originalData cl))" "ps = originalData cl" "processedData st = []"
  proof -
    have split: "originalData cl = concat (take N chunks) @ concat (drop N chunks)"
      using that(2) productChunks_concat [of ps]
      by (metis chunks_def append_take_drop_id concat_append)
    have "mergeProcessed (concat (take N chunks) @ concat (drop N chunks)) [] crr = crr"
      using that(1) crr_skus unfolding split by (intro mergeProcessed_fresh) simp_all
    then have "processedData (final (runGenerationProcess cl env ps st)) = crr"
      unfolding c3 that(3) split [symmetric] by (simp add: crr_def chunks_def)
    then show ?thesis using len by (simp add: crr_def chunks_def)
  qed
  from c1 c2 c3 c4 c5 c6 c7 c8 show ?thesis by blast
qed

theorem quota_after_chunks_keeps_partial_results_witness:
  "settled (handleGenerate
       (initialState\<lparr>originalData := exampleRecords 17, file' := Some ''products.csv''\<rparr>)
       quotaAfterFirstCall
       (initialState\<lparr>originalData := exampleRecords 17, file' := Some ''products.csv''\<rparr>))
     = QuotaExceeded
   \<and> length (processedData (final (handleGenerate
       (initialState\<lparr>originalData := exampleRecords 17, file' := Some ''products.csv''\<rparr>)
       quotaAfterFirstCall
       (initialState\<lparr>originalData := exampleRecords 17, file' := Some ''products.csv''\<rparr>))))
     = 15
   \<and> isResumable (final (handleGenerate
       (initialState\<lparr>originalData := exampleRecords 17, file' := Some ''products.csv''\<rparr>)
       quotaAfterFirstCall
       (initialState\<lparr>originalData := exampleRecords 17, file' := Some ''products.csv''\<rparr>)))
     = True
   \<and> error (final (handleGenerate
       (initialState\<lparr>originalData := exampleRecords 17, file' := Some ''products.csv''\<rparr>)
       quotaAfterFirstCall
       (initialState\<lparr>originalData := exampleRecords 17, file' := Some ''products.csv''\<rparr>)))
     = Some ''Daily token limit reached. 15 of 17 products were processed. You can download the partial results now or resume later when your quota is reset (midnight UTC).''
   \<and> settled (handleResume partlyProcessedState quotaAfterFirstCall partlyProcessedState)
     = QuotaExceeded
   \<and> map sku (processedData (final
        (handleResume partlyProcessedState quotaAfterFirstCall partlyProcessedState)))
     = map sku (exampleRecords 30)
   \<and> s_isResumable (the (storage (final
        (handleResume partlyProcessedState quotaAfterFirstCall partlyProcessedState))))
     = True
   \<and> error (final (handleResume partlyProcessedState quotaAfterFirstCall partlyProcessedState))
     = Some ''Daily token limit reached. 30 of 32 products were processed. You can download the partial results now or resume later when your quota is reset (midnight UTC).''"
proof -
  define cl where
    "cl = initialState\<lparr>originalData := exampleRecords 17, file' := Some ''products.csv''\<rparr>"
  define st where "st = setProcessedData [] (cl\<lparr>isCancelled := False\<rparr>)"
  define e where "e = \<lparr>rawErrorString = ''quota exceeded'', parsedError = None\<rparr>"
  have o: "originalData cl = exampleRecords 17" and f: "file' cl = Some ''products.csv''"
    and p: "processedData cl = []"
    by (simp_all add: cl_def initialState_def)
  have g1: "file' st = Some ''products.csv''" and g2: "originalData st = originalData cl"
    and g3: "\<not> isCancelled st" and g4: "processedData st = []"
    by (simp_all add: st_def cl_def initialState_def setProcessedData_def)
  have ne: "exampleRecords 17 \<noteq> []" by code_simp
  have hg: "handleGenerate cl quotaAfterFirstCall cl
      = runGenerationProcess cl quotaAfterFirstCall (originalData cl) st"
    using ne by (simp add: handleGenerate_def o st_def)
  have h1: "distinct (map sku (originalData cl))"
    unfolding o by code_simp
  have h7: "1 < length (productChunks (originalData cl))"
    unfolding o by code_simp
  have h8: "\<forall>k<1. returns (fst (quotaAfterFirstCall k)) \<and> \<not> snd (quotaAfterFirstCall k)"
    by (simp add: quotaAfterFirstCall_def returns_def)
  have h9: "fst (quotaAfterFirstCall 1) = Throws e"
    by (simp add: quotaAfterFirstCall_def e_def)
  have h10: "fst (classify e)"
    unfolding e_def by code_simp
  have m: "quotaMessage 15 (length (exampleRecords 17))
     = ''Daily token limit reached. 15 of 17 products were processed. You can download the partial results now or resume later when your quota is reset (midnight UTC).''"
    by code_simp
  have b: "BATCH_SIZE * 1 = 15" by (simp add: BATCH_SIZE_def)
  note t = quota_after_chunks_keeps_partial_results
      [where env = quotaAfterFirstCall and N = 1 and e = e,
       OF f g1 g2 g3 subset_refl zero_less_one h7 h8 h9 h10, folded hg]
  from t have a1: "settled (handleGenerate cl quotaAfterFirstCall cl) = QuotaExceeded"
    by blast
  from t h1 g4 have a2: "length (processedData (final (handleGenerate cl quotaAfterFirstCall cl)))
      = BATCH_SIZE * 1"
    by blast
  from t have a3: "isResumable (final (handleGenerate cl quotaAfterFirstCall cl)) = True"
    by blast
  from t have a4: "error (final (handleGenerate cl quotaAfterFirstCall cl))
      = Some (quotaMessage (length (processedData cl) + BATCH_SIZE * 1) (length (originalData cl)))"
    by blast
  define rs where "rs = partlyProcessedState"
  define rt where "rt = rs\<lparr>isCancelled := False\<rparr>"
  have ro: "originalData rs = exampleRecords 32" and rf: "file' rs = Some ''products.csv''"
    by (simp_all add: rs_def partlyProcessedState_def initialState_def)
  have r1: "file' rt = Some ''products.csv''" and r2: "originalData rt = originalData rs"
    and r3: "\<not> isCancelled rt" and r4: "processedData rt = processedData rs"
    by (simp_all add: rt_def rs_def partlyProcessedState_def initialState_def)
  have hr: "handleResume rs quotaAfterFirstCall rs
      = runGenerationProcess rs quotaAfterFirstCall (remainingProducts rs) rt"
    by (simp add: handleResume_def rt_def)
  have r5: "set (remainingProducts rs) \<subseteq> set (originalData rs)"
    by (auto simp: remainingProducts_def Let_def)
  have r7: "1 < length (productChunks (remainingProducts rs))"
    unfolding rs_def by code_simp
  have rk: "filter (\<lambda>k. k \<in> sku ` set (processedData rs)
                \<union> sku ` set (concat (take 1 (productChunks (remainingProducts rs)))))
              (map sku (originalData rs))
      = map sku (exampleRecords 30)"
    unfolding rs_def by code_simp
  have rm: "quotaMessage (length (processedData rs) + BATCH_SIZE * 1) (length (originalData rs))
     = ''Daily token limit reached. 30 of 32 products were processed. You can download the partial results now or resume later when your quota is reset (midnight UTC).''"
    unfolding rs_def by code_simp
  note u = quota_after_chunks_keeps_partial_results
      [where env = quotaAfterFirstCall and N = 1 and e = e,
       OF rf r1 r2 r3 r5 zero_less_one r7 h8 h9 h10, folded hr]
  from u have b1: "settled (handleResume rs quotaAfterFirstCall rs) = QuotaExceeded"
    by blast
  from u have b2: "map sku (processedData (final (handleResume rs quotaAfterFirstCall rs)))
      = filter (\<lambda>k. k \<in> sku ` set (processedData rt)
                \<union> sku ` set (concat (take 1 (productChunks (remainingProducts rs)))))
              (map sku (originalData rs))"
    by blast
  from u have b3: "storage (final (handleResume rs quotaAfterFirstCall rs))
      = Some (snapshot ''products.csv'' (final (handleResume rs quotaAfterFirstCall rs)) True)"
    by blast
  from u have b4: "error (final (handleResume rs quotaAfterFirstCall rs))
      = Some (quotaMessage (length (processedData rs) + BATCH_SIZE * 1) (length (originalData rs)))"
    by blast
  have b3': "s_isResumable (the (storage (final (handleResume rs quotaAfterFirstCall rs)))) = True"
    unfolding b3 by (simp add: snapshot_def)
  have a2': "length (processedData (final (handleGenerate cl quotaAfterFirstCall cl))) = 15"
    using a2 unfolding b .
  have a4': "error (final (handleGenerate cl quotaAfterFirstCall cl))
      = Some ''Daily token limit reached. 15 of 17 products were processed. You can download the partial results now or resume later when your quota is reset (midnight UTC).''"
    using a4 m unfolding p b o by simp
  have b2': "map sku (processedData (final (handleResume rs quotaAfterFirstCall rs)))
      = map sku (exampleRecords 30)"
    using b2 unfolding r4 rk .
  have b4': "error (final (handleResume rs quotaAfterFirstCall rs))
      = Some ''Daily token limit reached. 30 of 32 products were processed. You can download the partial results now or resume later when your quota is reset (midnight UTC).''"
    using b4 unfolding rm .
  from a1 a2' a3 a4' b1 b2' b3' b4' show ?thesis
    unfolding cl_def [symmetric] rs_def [symmetric] by blast
qed

text \<open>
  C1 fails as stated. Seventeen records of which the third and the sixteenth have an empty
  key are accepted by the upload (the first row has its values). In a fresh start the call
  for the first chunk (records 1 to 15) returns and the call for the second fails for lack
  of quota. The merge looks every original record up by key, so the sixteenth record finds
  the row of the third: \<open>processedData\<close> has sixteen rows, the sixteenth a copy of the
  third, where the results of the successful chunk are fifteen, and the error shown
  reports 15 of 17.
\<close>

theorem duplicate_key_rows_counterexample:
  "validateNormalized recordsWithEmptyKeys = None
   \<and> settled (handleGenerate
       (initialState\<lparr>originalData := recordsWithEmptyKeys, file' := Some ''products.csv''\<rparr>)
       quotaAfterFirstCall
       (initialState\<lparr>originalData := recordsWithEmptyKeys, file' := Some ''products.csv''\<rparr>))
     = QuotaExceeded
   \<and> length (resultsOfChunks quotaAfterFirstCall (productChunks recordsWithEmptyKeys) 1) = 15
   \<and> length (processedData (final (handleGenerate
       (initialState\<lparr>originalData := recordsWithEmptyKeys, file' := Some ''products.csv''\<rparr>)
       quotaAfterFirstCall
       (initialState\<lparr>originalData := recordsWithEmptyKeys, file' := Some ''products.csv''\<rparr>))))
     = 16
   \<and> processedData (final (handleGenerate
       (initialState\<lparr>originalData := recordsWithEmptyKeys, file' := Some ''products.csv''\<rparr>)
       quotaAfterFirstCall
       (initialState\<lparr>originalData := recordsWithEmptyKeys, file' := Some ''products.csv''\<rparr>))) ! 15
     = processedData (final (handleGenerate
       (initialState\<lparr>originalData := recordsWithEmptyKeys, file' := Some ''products.csv''\<rparr>)
       quotaAfterFirstCall
       (initialState\<lparr>originalData := recordsWithEmptyKeys, file' := Some ''products.csv''\<rparr>))) ! 2
   \<and> obj_get ''name'' (processedData (final (handleGenerate
       (initialState\<lparr>originalData := recordsWithEmptyKeys, file' := Some ''products.csv''\<rparr>)
       quotaAfterFirstCall
       (initialState\<lparr>originalData := recordsWithEmptyKeys, file' := Some ''products.csv''\<rparr>))) ! 15)
     = Some ''Third''
   \<and> error (final (handleGenerate
       (initialState\<lparr>originalData := recordsWithEmptyKeys, file' := Some ''products.csv''\<rparr>)
       quotaAfterFirstCall
       (initialState\<lparr>originalData := recordsWithEmptyKeys, file' := Some ''products.csv''\<rparr>)))
     = Some ''Daily token limit reached. 15 of 17 products were processed. You can download the partial results now or resume later when your quota is reset (midnight UTC).''"
  by code_simp

section \<open>The stored session\<close>











end
